theory Spec2Isabelle
  imports
    Main
    "HOL-Library.Multiset"
    "HOL-Library.Char_ord"
    "HOL-Library.List_Lexorder"
    "HOL-Library.Sublist"
begin

section \<open>Data model of \<^verbatim>\<open>github.go\<close>\<close>

text \<open>
  The program walks the paginated listing endpoints of a remote platform through the
  \<^verbatim>\<open>go-github\<close> client and collects user records.  The client's structs hold
  pointers; a pointer that may be \<^verbatim>\<open>nil\<close> is an \<open>option\<close>, and dereferencing
  \<^verbatim>\<open>nil\<close> is the outcome \<open>Panics\<close>.

  \<^verbatim>\<open>User.ID\<close> has type \<^verbatim>\<open>*int\<close>.  \<^verbatim>\<open>listCommits\<close> uses that pointer itself as a
  map key, so the address matters and not only the number behind it: an \<^verbatim>\<open>*int\<close> is an
  address, and the store \<open>heap\<close> gives the number at each address.  No function of the
  file writes through such a pointer, so the store is never updated.
\<close>

type_synonym addr = nat
type_synonym heap = "addr \<Rightarrow> int"

text \<open>A \<^verbatim>\<open>time.Time\<close> is an instant; \<^verbatim>\<open>Before\<close> and \<^verbatim>\<open>After\<close> compare instants.\<close>

type_synonym time = int

datatype error =
    Remote string
  | ErrSyntax string
  | ErrRange string
  | Trace error

datatype 'a outcome = Panics | Returns 'a

record User =
  ID :: "addr option"
  Login :: "string option"
  Email :: "string option"

record RepositoryCommit =
  SHA :: "string option"
  Author :: "User option"

text \<open>
  \<^verbatim>\<open>github.Repository\<close>; its field \<^verbatim>\<open>Owner\<close> is \<open>RepoOwner\<close> here, since \<open>Owner\<close> is
  also a field of the program's own \<^verbatim>\<open>Config\<close>.
\<close>

record Repository =
  Name :: "string option"
  RepoOwner :: "User option"
  CreatedAt :: "time option"

record Issue =
  Number :: "int option"
  IssueUser :: "User option"

record Stargazer =
  StarredAt :: "time option"
  StargazerUser :: "User option"

record ListOptions =
  Page :: int
  PerPage :: int

record Response =
  NextPage :: int

record Config =
  Owner :: string
  Repo :: string
  StartDate :: string
  EndDate :: string

text \<open>
  The remote platform, as the methods of \<^verbatim>\<open>*github.Client\<close> that the file calls.  A list
  method answers a request for one page with the page's items and the response header,
  or with an error.  The platform's data does not change during a run: each method is a
  function of its arguments.  The elements of a served slice are records, not \<^verbatim>\<open>nil\<close>;
  the pointers inside a record may be \<^verbatim>\<open>nil\<close>.
\<close>

record Client =
  ListByOrg :: "string \<Rightarrow> error + Repository list"
  ListCommits :: "string \<Rightarrow> string \<Rightarrow> ListOptions \<Rightarrow> error + RepositoryCommit list \<times> Response"
  ListForks :: "string \<Rightarrow> string \<Rightarrow> ListOptions \<Rightarrow> error + Repository list \<times> Response"
  ListWatchers :: "string \<Rightarrow> string \<Rightarrow> ListOptions \<Rightarrow> error + User list \<times> Response"
  ListByRepo :: "string \<Rightarrow> string \<Rightarrow> ListOptions \<Rightarrow> error + Issue list \<times> Response"
  ListStargazers :: "string \<Rightarrow> string \<Rightarrow> ListOptions \<Rightarrow> error + Stargazer list \<times> Response"
  GetByID :: "int \<Rightarrow> error + User"

text \<open>The calls a run issues to the remote platform, in the order it issues them.\<close>

datatype call = CallList ListOptions | CallGetByID int

text \<open>\<^verbatim>\<open>*x.ID\<close> for a \<^verbatim>\<open>*User\<close> \<open>x\<close>: \<open>None\<close> when one of the two pointers is \<^verbatim>\<open>nil\<close>.\<close>

definition deref_ID :: "heap \<Rightarrow> User option \<Rightarrow> int option" where
  "deref_ID h x = (case x of None \<Rightarrow> None | Some u \<Rightarrow> map_option h (ID u))"

section \<open>\<^verbatim>\<open>listPublicRepos\<close> and \<^verbatim>\<open>printRepos\<close>\<close>

definition listPublicRepos :: "Client \<Rightarrow> string \<Rightarrow> Repository list \<times> error option" where
  "listPublicRepos client org =
     (case ListByOrg client org of
        Inl err \<Rightarrow> ([], Some (Trace err))
      | Inr repos \<Rightarrow> (repos, None))"

text \<open>
  The lines handed to the logger: one \<^verbatim>\<open>[repo]\<close> line per repository, then the
  \<^verbatim>\<open>[repos]\<close> line holding the joined names.
\<close>

datatype log_line = RepoLine Repository | ReposLine string

fun Join :: "string list \<Rightarrow> string \<Rightarrow> string" where
  "Join [] sep = []"
| "Join [a] sep = a"
| "Join (a # b # as) sep = a @ sep @ Join (b # as) sep"

fun printRepos_range :: "Repository list \<Rightarrow> string list \<Rightarrow> log_line list
    \<Rightarrow> string list outcome \<times> log_line list" where
  "printRepos_range [] names out = (Returns names, out)"
| "printRepos_range (repo # repos) names out =
     (case Name repo of
        None \<Rightarrow> (Panics, out @ [RepoLine repo])
      | Some n \<Rightarrow> printRepos_range repos (names @ [n]) (out @ [RepoLine repo]))"

text \<open>
  \<^verbatim>\<open>sort.Strings\<close> orders strings bytewise, which is the lexicographic order of
  \<open>char list\<close> over the order of \<open>char\<close> by code; equal strings are
  indistinguishable, so the result is the sorted list whatever the algorithm.
\<close>

definition printRepos :: "Repository list \<Rightarrow> unit outcome \<times> log_line list" where
  "printRepos repos =
     (case printRepos_range repos [] [] of
        (Panics, out) \<Rightarrow> (Panics, out)
      | (Returns names, out) \<Rightarrow>
          (let names' = sort names;
               content = Join names' ''\<newline>''
           in (Returns (), out @ [ReposLine (''[repos]\<newline>'' @ content)])))"

section \<open>The pagination loop\<close>

text \<open>
  Modelled from the spec: \<^verbatim>\<open>checkTime\<close> is called by \<^verbatim>\<open>listForkers\<close> and
  \<^verbatim>\<open>listStargazers\<close> but defined in another file of the repository.  The spec gives its
  behaviour: a record passes when it is not before \<open>start\<close> and not after \<open>end\<close>, which
  is \<open>start \<le> timestamp\<close> and \<open>timestamp \<le> end\<close>.
\<close>

definition checkTime :: "time \<Rightarrow> time \<Rightarrow> time \<Rightarrow> bool" where
  "checkTime start end' t \<longleftrightarrow> \<not> t < start \<and> \<not> end' < t"

text \<open>
  \<^verbatim>\<open>listCommits\<close>, \<^verbatim>\<open>listForkers\<close>, \<^verbatim>\<open>listWatchers\<close>, \<^verbatim>\<open>listIssues\<close> and
  \<^verbatim>\<open>listStargazers\<close> each run the same \<^verbatim>\<open>for { ... }\<close> loop:
  \<^verbatim>\<open>
    for {
        items, resp, err := <list method>(ctx, cfg.Owner, cfg.Repo, opt)
        if err != nil { return <nil results>, errors.Trace(err) }
        for _, item := range items { <body> }
        if resp.NextPage == 0 { break }
        opt.Page = resp.NextPage
    }
  \<close>
  \<open>for_pages\<close> is that loop; \<open>fetch\<close> is the list method applied to the context, owner
  and repository, \<open>body\<close> the inner \<^verbatim>\<open>range\<close> loop of the function, \<open>fail\<close> builds the
  function's result for an error.  The state threaded through is \<open>opt\<close>, the variables
  the body updates (\<open>st\<close>) and the calls issued so far.  The loop ends with \<open>Inl\<close> when
  the function returns or panics inside it and with \<open>Inr\<close> at the \<^verbatim>\<open>break\<close>; nothing
  bounds the number of pages, so a run that never ends is \<open>None\<close>.
\<close>

partial_function (option) for_pages ::
  "(ListOptions \<Rightarrow> error + 'i list \<times> Response)
    \<Rightarrow> ('i list \<Rightarrow> 's \<Rightarrow> call list \<Rightarrow> ('r outcome + 's) \<times> call list)
    \<Rightarrow> (error \<Rightarrow> 'r) \<Rightarrow> ListOptions \<Rightarrow> 's \<Rightarrow> call list
    \<Rightarrow> (('r outcome + 's) \<times> call list) option" where
  "for_pages fetch body fail opt st calls =
     (case fetch opt of
        Inl err \<Rightarrow> Some (Inl (Returns (fail (Trace err))), calls @ [CallList opt])
      | Inr (items, resp) \<Rightarrow>
          (case body items st (calls @ [CallList opt]) of
             (Inl out, calls') \<Rightarrow> Some (Inl out, calls')
           | (Inr st', calls') \<Rightarrow>
               if NextPage resp = 0 then Some (Inr st', calls')
               else for_pages fetch body fail (opt\<lparr>Page := NextPage resp\<rparr>) st' calls'))"

section \<open>\<^verbatim>\<open>listCommits\<close>\<close>

text \<open>
  The map \<^verbatim>\<open>users\<close> has type \<^verbatim>\<open>map[*int]*github.User\<close>: its keys are pointers, and Go
  compares pointers by address.  It is an association list in insertion order, whose
  keys stay distinct because a key is only added when the lookup fails.
\<close>

fun commits_range :: "RepositoryCommit list \<Rightarrow> (addr option \<times> User) list \<Rightarrow> call list
    \<Rightarrow> ((User list \<times> error option) outcome + (addr option \<times> User) list) \<times> call list" where
  "commits_range [] users calls = (Inr users, calls)"
| "commits_range (commit # commits) users calls =
     (case Author commit of
        None \<Rightarrow> (Inl Panics, calls)
      | Some user \<Rightarrow>
          (case map_of users (ID user) of
             None \<Rightarrow> commits_range commits (users @ [(ID user, user)]) calls
           | Some _ \<Rightarrow> commits_range commits users calls))"

text \<open>
  \<^verbatim>\<open>for _, user := range users\<close> over a map: Go leaves the iteration order unspecified,
  and it may differ from run to run.  The order is a parameter of the model: each number
  of \<open>seed\<close> picks the next entry among those not yet visited.
\<close>

fun go_range :: "nat list \<Rightarrow> 'a list \<Rightarrow> 'a list" where
  "go_range seed [] = []"
| "go_range [] (x # xs) = x # xs"
| "go_range (n # seed) (x # xs) =
     (let i = n mod length (x # xs)
      in (x # xs) ! i # go_range seed (take i (x # xs) @ drop (Suc i) (x # xs)))"

definition listCommits :: "nat list \<Rightarrow> Client \<Rightarrow> Config
    \<Rightarrow> ((User list \<times> error option) outcome \<times> call list) option" where
  "listCommits seed client cfg =
     (case for_pages (ListCommits client (Owner cfg) (Repo cfg)) commits_range
             (\<lambda>err. ([], Some err)) \<lparr>Page = 0, PerPage = 100\<rparr> [] [] of
        None \<Rightarrow> None
      | Some (Inl out, calls) \<Rightarrow> Some (out, calls)
      | Some (Inr users, calls) \<Rightarrow>
          Some (Returns (go_range seed (map snd users), None), calls))"

section \<open>\<^verbatim>\<open>listForkers\<close>\<close>

text \<open>
  \<^verbatim>\<open>parseDate\<close> is defined in another file of the repository; it is a parameter.
  When the filter is off, \<^verbatim>\<open>start\<close> and \<^verbatim>\<open>end\<close> keep the zero value and are not read.
\<close>

definition parseDates :: "(string \<Rightarrow> error + time) \<Rightarrow> bool \<Rightarrow> Config \<Rightarrow> error + time \<times> time" where
  "parseDates parseDate useTimeFilter cfg =
     (if useTimeFilter then
        (case parseDate (StartDate cfg) of
           Inl err \<Rightarrow> Inl (Trace err)
         | Inr start \<Rightarrow>
             (case parseDate (EndDate cfg) of
                Inl err \<Rightarrow> Inl (Trace err)
              | Inr end' \<Rightarrow> Inr (start, end')))
      else Inr (0, 0))"

fun forks_range :: "heap \<Rightarrow> (int \<Rightarrow> error + User) \<Rightarrow> bool \<Rightarrow> time \<Rightarrow> time
    \<Rightarrow> Repository list \<Rightarrow> User list \<times> time list \<Rightarrow> call list
    \<Rightarrow> ((User list \<times> time list \<times> error option) outcome + User list \<times> time list) \<times> call list" where
  "forks_range h get useTimeFilter start end' [] st calls = (Inr st, calls)"
| "forks_range h get useTimeFilter start end' (repo # repos) (users, times') calls =
     (case (if useTimeFilter then map_option (checkTime start end') (CreatedAt repo)
            else Some True) of
        None \<Rightarrow> (Inl Panics, calls)
      | Some False \<Rightarrow> forks_range h get useTimeFilter start end' repos (users, times') calls
      | Some True \<Rightarrow>
          (case deref_ID h (RepoOwner repo) of
             None \<Rightarrow> (Inl Panics, calls)
           | Some i \<Rightarrow>
               (case get i of
                  Inl err \<Rightarrow> (Inl (Returns ([], [], Some (Trace err))), calls @ [CallGetByID i])
                | Inr user \<Rightarrow>
                    (case CreatedAt repo of
                       None \<Rightarrow> (Inl Panics, calls @ [CallGetByID i])
                     | Some t \<Rightarrow>
                         forks_range h get useTimeFilter start end' repos
                           (users @ [user], times' @ [t]) (calls @ [CallGetByID i])))))"

definition listForkers :: "heap \<Rightarrow> (string \<Rightarrow> error + time) \<Rightarrow> Client \<Rightarrow> Config
    \<Rightarrow> ((User list \<times> time list \<times> error option) outcome \<times> call list) option" where
  "listForkers h parseDate client cfg =
     (let useTimeFilter = length (StartDate cfg) > 0 \<and> length (EndDate cfg) > 0
      in case parseDates parseDate useTimeFilter cfg of
           Inl err \<Rightarrow> Some (Returns ([], [], Some err), [])
         | Inr (start, end') \<Rightarrow>
             (case for_pages (ListForks client (Owner cfg) (Repo cfg))
                     (forks_range h (GetByID client) useTimeFilter start end')
                     (\<lambda>err. ([], [], Some err)) \<lparr>Page = 0, PerPage = 100\<rparr> ([], []) [] of
                None \<Rightarrow> None
              | Some (Inl out, calls) \<Rightarrow> Some (out, calls)
              | Some (Inr (users, times'), calls) \<Rightarrow> Some (Returns (users, times', None), calls)))"

section \<open>\<^verbatim>\<open>listWatchers\<close>\<close>

fun watchers_range :: "heap \<Rightarrow> (int \<Rightarrow> error + User) \<Rightarrow> User list \<Rightarrow> User list \<Rightarrow> call list
    \<Rightarrow> ((User list \<times> time list \<times> error option) outcome + User list) \<times> call list" where
  "watchers_range h get [] allUsers calls = (Inr allUsers, calls)"
| "watchers_range h get (user # users) allUsers calls =
     (case deref_ID h (Some user) of
        None \<Rightarrow> (Inl Panics, calls)
      | Some i \<Rightarrow>
          (case get i of
             Inl err \<Rightarrow> (Inl (Returns ([], [], Some (Trace err))), calls @ [CallGetByID i])
           | Inr user' \<Rightarrow>
               watchers_range h get users (allUsers @ [user']) (calls @ [CallGetByID i])))"

definition listWatchers :: "heap \<Rightarrow> Client \<Rightarrow> Config
    \<Rightarrow> ((User list \<times> time list \<times> error option) outcome \<times> call list) option" where
  "listWatchers h client cfg =
     (case for_pages (ListWatchers client (Owner cfg) (Repo cfg))
             (watchers_range h (GetByID client))
             (\<lambda>err. ([], [], Some err)) \<lparr>Page = 0, PerPage = 100\<rparr> [] [] of
        None \<Rightarrow> None
      | Some (Inl out, calls) \<Rightarrow> Some (out, calls)
      | Some (Inr allUsers, calls) \<Rightarrow> Some (Returns (allUsers, [], None), calls))"

section \<open>\<^verbatim>\<open>listIssues\<close>\<close>

text \<open>Here the cache \<^verbatim>\<open>userCache\<close> has type \<^verbatim>\<open>map[int]struct{}\<close>: a set of numbers.\<close>

fun issues_range :: "heap \<Rightarrow> (int \<Rightarrow> error + User) \<Rightarrow> Issue list \<Rightarrow> User list \<times> int set
    \<Rightarrow> call list \<Rightarrow> ((User list \<times> error option) outcome + User list \<times> int set) \<times> call list" where
  "issues_range h get [] st calls = (Inr st, calls)"
| "issues_range h get (issue # issues) (users, userCache) calls =
     (case deref_ID h (IssueUser issue) of
        None \<Rightarrow> (Inl Panics, calls)
      | Some i \<Rightarrow>
          if i \<in> userCache then issues_range h get issues (users, userCache) calls
          else
            (case get i of
               Inl err \<Rightarrow> (Inl (Returns ([], Some (Trace err))), calls @ [CallGetByID i])
             | Inr user \<Rightarrow>
                 issues_range h get issues (users @ [user], insert i userCache)
                   (calls @ [CallGetByID i])))"

definition listIssues :: "heap \<Rightarrow> Client \<Rightarrow> Config
    \<Rightarrow> ((User list \<times> error option) outcome \<times> call list) option" where
  "listIssues h client cfg =
     (case for_pages (ListByRepo client (Owner cfg) (Repo cfg))
             (issues_range h (GetByID client))
             (\<lambda>err. ([], Some err)) \<lparr>Page = 0, PerPage = 100\<rparr> ([], {}) [] of
        None \<Rightarrow> None
      | Some (Inl out, calls) \<Rightarrow> Some (out, calls)
      | Some (Inr (users, userCache), calls) \<Rightarrow> Some (Returns (users, None), calls))"

section \<open>\<^verbatim>\<open>listStargazers\<close>\<close>

text \<open>
  With \<^verbatim>\<open>onlyID\<close> the pointer \<^verbatim>\<open>stargazer.User\<close> is appended as it is, \<^verbatim>\<open>nil\<close> or not,
  so the returned slice holds \<open>User option\<close>.
\<close>

fun stargazers_range :: "heap \<Rightarrow> (int \<Rightarrow> error + User) \<Rightarrow> bool \<Rightarrow> bool \<Rightarrow> time \<Rightarrow> time
    \<Rightarrow> Stargazer list \<Rightarrow> User option list \<times> time list \<Rightarrow> call list
    \<Rightarrow> ((User option list \<times> time list \<times> error option) outcome + User option list \<times> time list)
        \<times> call list" where
  "stargazers_range h get onlyID useTimeFilter start end' [] st calls = (Inr st, calls)"
| "stargazers_range h get onlyID useTimeFilter start end' (stargazer # stargazers)
       (users, times') calls =
     (case (if useTimeFilter then map_option (checkTime start end') (StarredAt stargazer)
            else Some True) of
        None \<Rightarrow> (Inl Panics, calls)
      | Some False \<Rightarrow>
          stargazers_range h get onlyID useTimeFilter start end' stargazers (users, times') calls
      | Some True \<Rightarrow>
          (if onlyID then
             (case StarredAt stargazer of
                None \<Rightarrow> (Inl Panics, calls)
              | Some t \<Rightarrow>
                  stargazers_range h get onlyID useTimeFilter start end' stargazers
                    (users @ [StargazerUser stargazer], times' @ [t]) calls)
           else
             (case deref_ID h (StargazerUser stargazer) of
                None \<Rightarrow> (Inl Panics, calls)
              | Some i \<Rightarrow>
                  (case get i of
                     Inl err \<Rightarrow>
                       (Inl (Returns ([], [], Some (Trace err))), calls @ [CallGetByID i])
                   | Inr user \<Rightarrow>
                       (case StarredAt stargazer of
                          None \<Rightarrow> (Inl Panics, calls @ [CallGetByID i])
                        | Some t \<Rightarrow>
                            stargazers_range h get onlyID useTimeFilter start end' stargazers
                              (users @ [Some user], times' @ [t]) (calls @ [CallGetByID i]))))))"

definition listStargazers :: "heap \<Rightarrow> (string \<Rightarrow> error + time) \<Rightarrow> Client \<Rightarrow> Config \<Rightarrow> bool
    \<Rightarrow> ((User option list \<times> time list \<times> error option) outcome \<times> call list) option" where
  "listStargazers h parseDate client cfg onlyID =
     (let useTimeFilter = length (StartDate cfg) > 0 \<and> length (EndDate cfg) > 0
      in case parseDates parseDate useTimeFilter cfg of
           Inl err \<Rightarrow> Some (Returns ([], [], Some err), [])
         | Inr (start, end') \<Rightarrow>
             (case for_pages (ListStargazers client (Owner cfg) (Repo cfg))
                     (stargazers_range h (GetByID client) onlyID useTimeFilter start end')
                     (\<lambda>err. ([], [], Some err)) \<lparr>Page = 0, PerPage = 100\<rparr> ([], []) [] of
                None \<Rightarrow> None
              | Some (Inl out, calls) \<Rightarrow> Some (out, calls)
              | Some (Inr (users, times'), calls) \<Rightarrow> Some (Returns (users, times', None), calls)))"

section \<open>\<^verbatim>\<open>listUsers\<close>\<close>

text \<open>
  The functions of Go's standard library that \<^verbatim>\<open>listUsers\<close> calls, after their
  documentation.  A Go string is a sequence of bytes.

  \<^verbatim>\<open>unicode.IsSpace\<close> holds for six ASCII characters and for the code points U+0085,
  U+00A0, U+1680, U+2000 to U+200A, U+2028, U+2029, U+202F, U+205F and U+3000;
  \<open>spaceRunes\<close> lists their UTF-8 encodings.  No encoding is a prefix or a suffix of
  another, and each starts with a byte that is no continuation byte, so that decoding
  the string rune by rune finds a white space exactly where one of the encodings occurs.
\<close>

definition spaceRunes :: "string list" where
  "spaceRunes =
     [ [CHR 0x09], [CHR 0x0A], [CHR 0x0B], [CHR 0x0C], [CHR 0x0D], [CHR 0x20],
      [CHR 0xC2, CHR 0x85], [CHR 0xC2, CHR 0xA0], [CHR 0xE1, CHR 0x9A, CHR 0x80],
      [CHR 0xE2, CHR 0x80, CHR 0x80], [CHR 0xE2, CHR 0x80, CHR 0x81],
      [CHR 0xE2, CHR 0x80, CHR 0x82], [CHR 0xE2, CHR 0x80, CHR 0x83],
      [CHR 0xE2, CHR 0x80, CHR 0x84], [CHR 0xE2, CHR 0x80, CHR 0x85],
      [CHR 0xE2, CHR 0x80, CHR 0x86], [CHR 0xE2, CHR 0x80, CHR 0x87],
      [CHR 0xE2, CHR 0x80, CHR 0x88], [CHR 0xE2, CHR 0x80, CHR 0x89],
      [CHR 0xE2, CHR 0x80, CHR 0x8A], [CHR 0xE2, CHR 0x80, CHR 0xA8],
      [CHR 0xE2, CHR 0x80, CHR 0xA9], [CHR 0xE2, CHR 0x80, CHR 0xAF],
      [CHR 0xE2, CHR 0x81, CHR 0x9F], [CHR 0xE3, CHR 0x80, CHR 0x80]]"

text \<open>The number of bytes of the white space that \<open>s\<close> starts with; 0 when there is none.\<close>

definition spaceWidth :: "string list \<Rightarrow> string \<Rightarrow> nat" where
  "spaceWidth runes s = (case find (\<lambda>r. prefix r s) runes of None \<Rightarrow> 0 | Some r \<Rightarrow> length r)"

text \<open>
  \<open>trimLeft runes n s\<close> drops \<open>n\<close> bytes (the rest of a white space already recognised)
  and then every white space \<open>s\<close> starts with.
\<close>

fun trimLeft :: "string list \<Rightarrow> nat \<Rightarrow> string \<Rightarrow> string" where
  "trimLeft runes n [] = []"
| "trimLeft runes (Suc n) (c # cs) = trimLeft runes n cs"
| "trimLeft runes 0 (c # cs) =
     (case spaceWidth runes (c # cs) of
        0 \<Rightarrow> c # cs
      | Suc n \<Rightarrow> trimLeft runes n cs)"

definition TrimSpace :: "string \<Rightarrow> string" where
  "TrimSpace s = rev (trimLeft (map rev spaceRunes) 0 (rev (trimLeft spaceRunes 0 s)))"

text \<open>
  \<^verbatim>\<open>strings.Fields\<close>: the maximal runs of bytes between white space.  \<open>cur\<close> is the field
  being read, \<open>n\<close> the bytes of a recognised white space still to drop.
\<close>

fun FieldsFrom :: "string \<Rightarrow> nat \<Rightarrow> string \<Rightarrow> string list" where
  "FieldsFrom cur n [] = (if cur = [] then [] else [cur])"
| "FieldsFrom cur (Suc n) (c # cs) = FieldsFrom cur n cs"
| "FieldsFrom cur 0 (c # cs) =
     (case spaceWidth spaceRunes (c # cs) of
        0 \<Rightarrow> FieldsFrom (cur @ [c]) 0 cs
      | Suc n \<Rightarrow> (if cur = [] then [] else [cur]) @ FieldsFrom [] n cs)"

definition Fields :: "string \<Rightarrow> string list" where
  "Fields s = FieldsFrom [] 0 s"

text \<open>
  \<^verbatim>\<open>strconv.ParseInt(s, 10, 64)\<close>: an optional sign, then \<^verbatim>\<open>ParseUint\<close> on the rest, which
  reads decimal digits from the left and stops at the first byte that is no digit
  (\<^verbatim>\<open>ErrSyntax\<close>) or at the first digit that takes the value beyond 64 bits
  (\<^verbatim>\<open>ErrRange\<close>); then the range check for a signed 64-bit value.
\<close>

definition digit :: "char \<Rightarrow> nat option" where
  "digit c = (if CHR ''0'' \<le> c \<and> c \<le> CHR ''9'' then Some (of_char c - 48) else None)"

fun ParseUint_loop :: "string \<Rightarrow> string \<Rightarrow> nat \<Rightarrow> error + nat" where
  "ParseUint_loop s0 [] n = Inr n"
| "ParseUint_loop s0 (c # cs) n =
     (case digit c of
        None \<Rightarrow> Inl (ErrSyntax s0)
      | Some d \<Rightarrow>
          if n * 10 + d > 2 ^ 64 - 1 then Inl (ErrRange s0)
          else ParseUint_loop s0 cs (n * 10 + d))"

definition ParseUint :: "string \<Rightarrow> string \<Rightarrow> error + nat" where
  "ParseUint s0 s = (if s = [] then Inl (ErrSyntax s0) else ParseUint_loop s0 s 0)"

definition ParseInt :: "string \<Rightarrow> error + int" where
  "ParseInt s =
     (case s of
        [] \<Rightarrow> Inl (ErrSyntax s)
      | c # cs \<Rightarrow>
          (let neg = (c = CHR ''-'');
               s' = (if c = CHR ''+'' \<or> c = CHR ''-'' then cs else s)
           in case ParseUint s s' of
                Inl err \<Rightarrow> Inl err
              | Inr un \<Rightarrow>
                  if \<not> neg \<and> un \<ge> 2 ^ 63 then Inl (ErrRange s)
                  else if neg \<and> un > 2 ^ 63 then Inl (ErrRange s)
                  else Inr (if neg then - int un else int un)))"

text \<open>
  \<^verbatim>\<open>br.ReadString(delim)\<close> on a reader whose unread bytes are the given string: the bytes
  up to and including the first \<open>delim\<close>, or, when there is no \<open>delim\<close>, all the bytes
  together with \<^verbatim>\<open>io.EOF\<close> (the flag).  The last component is what stays unread.  The
  reader delivers the bytes of the file; read errors other than \<^verbatim>\<open>io.EOF\<close> are not
  modelled.
\<close>

fun ReadString :: "char \<Rightarrow> string \<Rightarrow> string \<times> bool \<times> string" where
  "ReadString delim [] = ([], True, [])"
| "ReadString delim (c # cs) =
     (if c = delim then ([c], False, cs)
      else (case ReadString delim cs of (line, eof, rest) \<Rightarrow> (c # line, eof, rest)))"

text \<open>
  The loop of \<^verbatim>\<open>listUsers\<close>.  \<^verbatim>\<open>datas[0]\<close> is an index into the slice \<^verbatim>\<open>datas\<close>, and
  Go panics when the slice is empty.  \<^verbatim>\<open>int(id)\<close> is the identity where \<^verbatim>\<open>int\<close> has 64
  bits.
\<close>

function listUsers_loop :: "(int \<Rightarrow> error + User) \<Rightarrow> string \<Rightarrow> User list \<Rightarrow> call list
    \<Rightarrow> (User list \<times> error option) outcome \<times> call list" where
  "listUsers_loop get br users calls =
     (case ReadString CHR 0x0A br of
        (line, eof, br') \<Rightarrow>
          if eof then (Returns (users, None), calls)
          else
            (case Fields (TrimSpace line) of
               [] \<Rightarrow> (Panics, calls)
             | d # ds \<Rightarrow>
                 (case ParseInt d of
                    Inl err \<Rightarrow> (Returns ([], Some (Trace err)), calls)
                  | Inr id' \<Rightarrow>
                      (case get id' of
                         Inl err \<Rightarrow> (Returns ([], Some (Trace err)), calls @ [CallGetByID id'])
                       | Inr user \<Rightarrow>
                           listUsers_loop get br' (users @ [user]) (calls @ [CallGetByID id'])))))"
  by pat_completeness auto
termination
proof -
  have shorter: "ReadString delim s = (l, False, t) \<Longrightarrow> length t < length s" for delim s l t
    by (induction s arbitrary: l) (auto split: if_splits prod.splits)
  show ?thesis
    by (relation "measure (\<lambda>(get, br, users, calls). length br)")
      (auto dest: shorter [OF sym])
qed

text \<open>\<^verbatim>\<open>os.Open\<close> is a parameter: the content of the file of that name, or an error.\<close>

definition listUsers :: "(string \<Rightarrow> error + string) \<Rightarrow> Client \<Rightarrow> string
    \<Rightarrow> (User list \<times> error option) outcome \<times> call list" where
  "listUsers os_Open client file =
     (case os_Open file of
        Inl err \<Rightarrow> (Returns ([], Some (Trace err)), [])
      | Inr content \<Rightarrow> listUsers_loop (GetByID client) content [] [])"

section \<open>Sample data\<close>

text \<open>Concrete users, a remote platform and a file system, for the examples below.\<close>

definition alice :: User where
  "alice = \<lparr>ID = Some 1, Login = Some ''alice'', Email = None\<rparr>"

definition bob :: User where
  "bob = \<lparr>ID = Some 2, Login = Some ''bob'', Email = None\<rparr>"

definition no_pages :: "string \<Rightarrow> string \<Rightarrow> ListOptions \<Rightarrow> error + 'a list \<times> Response" where
  "no_pages owner repo opt = Inr ([], \<lparr>NextPage = 0\<rparr>)"

text \<open>A platform that knows the users 1 and 2 and lists nothing.\<close>

definition lookup_client :: Client where
  "lookup_client =
     \<lparr>ListByOrg = (\<lambda>org. Inr []), ListCommits = no_pages, ListForks = no_pages,
      ListWatchers = no_pages, ListByRepo = no_pages, ListStargazers = no_pages,
      GetByID = (\<lambda>i. if i = 1 then Inr alice else if i = 2 then Inr bob
                       else Inl (Remote ''404 Not Found''))\<rparr>"

text \<open>A file system where every name opens a file of the given content.\<close>

definition only_file :: "string \<Rightarrow> string \<Rightarrow> error + string" where
  "only_file content name = Inr content"

definition alice_again :: User where
  "alice_again = \<lparr>ID = Some 3, Login = Some ''alice'', Email = None\<rparr>"

text \<open>
  The numbers behind the \<^verbatim>\<open>ID\<close> pointers: the cells 1 and 3 both hold the number 1, as
  they do when the JSON decoder reads the same author from two commits; it allocates a
  new \<^verbatim>\<open>int\<close> for each \<^verbatim>\<open>*int\<close> field it fills.
\<close>

definition sample_heap :: heap where
  "sample_heap a = (if a = 3 then 1 else int a)"

definition commit_by :: "User \<Rightarrow> RepositoryCommit" where
  "commit_by u = \<lparr>SHA = None, Author = Some u\<rparr>"

definition sample_cfg :: Config where
  "sample_cfg = \<lparr>Owner = ''pingcap'', Repo = ''tidb'', StartDate = [], EndDate = []\<rparr>"

definition issue_by :: "User \<Rightarrow> Issue" where
  "issue_by u = \<lparr>Number = None, IssueUser = Some u\<rparr>"

definition fork_by :: "User \<Rightarrow> time \<Rightarrow> Repository" where
  "fork_by u t = \<lparr>Name = None, RepoOwner = Some u, CreatedAt = Some t\<rparr>"

definition star_by :: "User \<Rightarrow> time \<Rightarrow> Stargazer" where
  "star_by u t = \<lparr>StarredAt = Some t, StargazerUser = Some u\<rparr>"

text \<open>
  A listing of two pages: the first request (page 0) leads to page 2, which is the last.
\<close>

definition two_pages :: "'a list \<Rightarrow> 'a list \<Rightarrow> string \<Rightarrow> string \<Rightarrow> ListOptions
    \<Rightarrow> error + 'a list \<times> Response" where
  "two_pages first second owner repo opt =
     (if Page opt = 0 then Inr (first, \<lparr>NextPage = 2\<rparr>)
      else if Page opt = 2 then Inr (second, \<lparr>NextPage = 0\<rparr>)
      else Inl (Remote ''404 Not Found''))"

definition sample_client :: Client where
  "sample_client =
     \<lparr>ListByOrg = (\<lambda>org. Inr []),
      ListCommits = two_pages [commit_by alice, commit_by bob] [commit_by alice_again],
      ListForks = two_pages [fork_by alice 10, fork_by bob 20] [fork_by alice_again 30],
      ListWatchers = two_pages [alice, bob] [],
      ListByRepo = two_pages [issue_by bob, issue_by alice] [issue_by alice_again, issue_by bob],
      ListStargazers = two_pages [star_by alice 10, star_by bob 20] [star_by alice_again 30],
      GetByID = (\<lambda>i. if i = 1 then Inr alice else if i = 2 then Inr bob
                       else Inl (Remote ''404 Not Found''))\<rparr>"

text \<open>
  The same platform when it fails to look up every user but the first and fails to serve
  the second page of commits.
\<close>

definition failing_client :: Client where
  "failing_client =
     sample_client
       \<lparr>ListCommits := (\<lambda>owner repo opt.
          if Page opt = 0 then Inr ([commit_by alice], \<lparr>NextPage = 2\<rparr>)
          else Inl (Remote ''502 Bad Gateway'')),
        GetByID := (\<lambda>i. if i = 1 then Inr alice else Inl (Remote ''502 Bad Gateway''))\<rparr>"

text \<open>
  The same platform when the first page of commits holds a commit without author, as the
  platform serves it for a commit whose author has no account.
\<close>

definition nil_author_client :: Client where
  "nil_author_client =
     sample_client
       \<lparr>ListCommits := two_pages [commit_by alice, \<lparr>SHA = None, Author = None\<rparr>] [commit_by bob]\<rparr>"

definition sample_parseDate :: "string \<Rightarrow> error + time" where
  "sample_parseDate s =
     (if s = ''2017-01-10'' then Inr 10
      else if s = ''2017-01-20'' then Inr 20
      else Inl (ErrSyntax s))"

definition window_cfg :: Config where
  "window_cfg =
     \<lparr>Owner = ''pingcap'', Repo = ''tidb'', StartDate = ''2017-01-10'', EndDate = ''2017-01-20''\<rparr>"

section \<open>Notions for stating the properties\<close>

text \<open>
  The pages a listing serves when it is walked from \<open>opt\<close> along \<^verbatim>\<open>NextPage\<close>: each
  with the request that fetched it, up to and including the first page whose
  \<^verbatim>\<open>NextPage\<close> is 0.  The result is \<open>None\<close> when a request fails or when \<open>n\<close> requests
  do not reach such a page.
\<close>

fun pages_from :: "nat \<Rightarrow> (ListOptions \<Rightarrow> error + 'i list \<times> Response) \<Rightarrow> ListOptions
    \<Rightarrow> (ListOptions \<times> 'i list) list option" where
  "pages_from 0 fetch opt = None"
| "pages_from (Suc n) fetch opt =
     (case fetch opt of
        Inl err \<Rightarrow> None
      | Inr (items, resp) \<Rightarrow>
          if NextPage resp = 0 then Some [(opt, items)]
          else map_option ((#) (opt, items)) (pages_from n fetch (opt\<lparr>Page := NextPage resp\<rparr>)))"

text \<open>The body of a loop run over given pages, one after the other.\<close>

fun run_pages :: "('i list \<Rightarrow> 's \<Rightarrow> call list \<Rightarrow> ('r outcome + 's) \<times> call list)
    \<Rightarrow> (ListOptions \<times> 'i list) list \<Rightarrow> 's \<Rightarrow> call list \<Rightarrow> ('r outcome + 's) \<times> call list" where
  "run_pages body [] st calls = (Inr st, calls)"
| "run_pages body ((opt, items) # pgs) st calls =
     (case body items st (calls @ [CallList opt]) of
        (Inl out, calls') \<Rightarrow> (Inl out, calls')
      | (Inr st', calls') \<Rightarrow> run_pages body pgs st' calls')"

text \<open>A call fails when the platform answers it with an error.\<close>

definition call_failed :: "(ListOptions \<Rightarrow> error + 'i) \<Rightarrow> (int \<Rightarrow> error + User) \<Rightarrow> call \<Rightarrow> bool" where
  "call_failed fetch get c =
     (case c of CallList opt \<Rightarrow> isl (fetch opt) | CallGetByID i \<Rightarrow> isl (get i))"

text \<open>
  How a loop may end or go on: a return inside the loop is the function's result for an
  error, and in every other case each call issued so far has succeeded.
\<close>

definition exit_ok :: "(ListOptions \<Rightarrow> error + 'i) \<Rightarrow> (int \<Rightarrow> error + User) \<Rightarrow> (error \<Rightarrow> 'r)
    \<Rightarrow> ('r outcome + 's) \<times> call list \<Rightarrow> bool" where
  "exit_ok fetch get fail r =
     (case r of
        (Inl (Returns ret), calls) \<Rightarrow> \<exists>err. ret = fail err
      | (_, calls) \<Rightarrow> \<forall>c \<in> set calls. \<not> call_failed fetch get c)"

text \<open>
  First-seen order: each element once, in the order of the first occurrences.
\<close>

definition first_seen :: "'a list \<Rightarrow> 'a list" where
  "first_seen xs = rev (remdups (rev xs))"

text \<open>
  The time window as the spec words it: a record passes when \<open>start \<le> timestamp\<close> and
  \<open>timestamp \<le> end\<close>, both ends included.  A record without timestamp does not pass.
\<close>

definition in_window :: "time \<Rightarrow> time \<Rightarrow> time option \<Rightarrow> bool" where
  "in_window start end' t = (case t of None \<Rightarrow> False | Some x \<Rightarrow> start \<le> x \<and> x \<le> end')"

text \<open>The records a run keeps: all of them when the filter is off.\<close>

definition passes :: "bool \<Rightarrow> time \<Rightarrow> time \<Rightarrow> time option \<Rightarrow> bool" where
  "passes useTimeFilter start end' t \<longleftrightarrow> \<not> useTimeFilter \<or> in_window start end' t"

text \<open>\<open>u\<close> is the profile that the platform returns for the owner of the fork \<open>repo\<close>.\<close>

definition forker_of :: "heap \<Rightarrow> (int \<Rightarrow> error + User) \<Rightarrow> Repository \<Rightarrow> User \<Rightarrow> bool" where
  "forker_of h get repo u =
     (case deref_ID h (RepoOwner repo) of None \<Rightarrow> False | Some i \<Rightarrow> get i = Inr u)"

text \<open>
  \<open>u\<close> is the user that \<^verbatim>\<open>listStargazers\<close> returns for \<open>stargazer\<close>: the record of the
  listing itself with \<^verbatim>\<open>onlyID\<close>, the profile looked up otherwise.
\<close>

definition stargazer_of :: "heap \<Rightarrow> (int \<Rightarrow> error + User) \<Rightarrow> bool \<Rightarrow> Stargazer \<Rightarrow> User option
    \<Rightarrow> bool" where
  "stargazer_of h get onlyID stargazer u =
     (if onlyID then u = StargazerUser stargazer
      else (case deref_ID h (StargazerUser stargazer) of
              None \<Rightarrow> False
            | Some i \<Rightarrow> (case get i of Inl err \<Rightarrow> False | Inr user \<Rightarrow> u = Some user)))"

text \<open>
  \<open>users\<close> and \<open>times'\<close> are, position by position, the users and the timestamps of the
  records \<open>kept\<close>.
\<close>

definition forks_kept :: "heap \<Rightarrow> (int \<Rightarrow> error + User) \<Rightarrow> Repository list \<Rightarrow> User list
    \<Rightarrow> time list \<Rightarrow> bool" where
  "forks_kept h get kept users times' \<longleftrightarrow>
     list_all2 (forker_of h get) kept users \<and> list_all2 (\<lambda>r t. CreatedAt r = Some t) kept times'"

definition stars_kept :: "heap \<Rightarrow> (int \<Rightarrow> error + User) \<Rightarrow> bool \<Rightarrow> Stargazer list
    \<Rightarrow> User option list \<Rightarrow> time list \<Rightarrow> bool" where
  "stars_kept h get onlyID kept users times' \<longleftrightarrow>
     list_all2 (stargazer_of h get onlyID) kept users
     \<and> list_all2 (\<lambda>r t. StarredAt r = Some t) kept times'"

text \<open>
  The loop cut after \<open>n\<close> iterations: its result when it has ended by then (\<open>Inl\<close>), else
  the state it has reached (\<open>Inr\<close>).  The equations are those of \<open>for_pages\<close>.
\<close>

fun for_pages_upto :: "nat \<Rightarrow> (ListOptions \<Rightarrow> error + 'i list \<times> Response)
    \<Rightarrow> ('i list \<Rightarrow> 's \<Rightarrow> call list \<Rightarrow> ('r outcome + 's) \<times> call list)
    \<Rightarrow> (error \<Rightarrow> 'r) \<Rightarrow> ListOptions \<Rightarrow> 's \<Rightarrow> call list
    \<Rightarrow> (('r outcome + 's) \<times> call list) + (ListOptions \<times> 's \<times> call list)" where
  "for_pages_upto 0 fetch body fail opt st calls = Inr (opt, st, calls)"
| "for_pages_upto (Suc n) fetch body fail opt st calls =
     (case fetch opt of
        Inl err \<Rightarrow> Inl (Inl (Returns (fail (Trace err))), calls @ [CallList opt])
      | Inr (items, resp) \<Rightarrow>
          (case body items st (calls @ [CallList opt]) of
             (Inl out, calls') \<Rightarrow> Inl (Inl out, calls')
           | (Inr st', calls') \<Rightarrow>
               if NextPage resp = 0 then Inl (Inr st', calls')
               else for_pages_upto n fetch body fail (opt\<lparr>Page := NextPage resp\<rparr>) st' calls'))"

text \<open>The calls that the loop issues in its first \<open>n\<close> iterations.\<close>

definition calls_upto :: "nat \<Rightarrow> (ListOptions \<Rightarrow> error + 'i list \<times> Response)
    \<Rightarrow> ('i list \<Rightarrow> 's \<Rightarrow> call list \<Rightarrow> ('r outcome + 's) \<times> call list)
    \<Rightarrow> (error \<Rightarrow> 'r) \<Rightarrow> ListOptions \<Rightarrow> 's \<Rightarrow> call list \<Rightarrow> call list" where
  "calls_upto n fetch body fail opt st calls =
     (case for_pages_upto n fetch body fail opt st calls of
        Inl (r, cs) \<Rightarrow> cs
      | Inr (opt', st', cs) \<Rightarrow> cs)"

text \<open>
  The calls that each function issues before and in the first \<open>n\<close> iterations of its
  loop.  \<^verbatim>\<open>listForkers\<close> and \<^verbatim>\<open>listStargazers\<close> issue none when a date does not parse.
\<close>

definition listCommits_calls :: "nat \<Rightarrow> Client \<Rightarrow> Config \<Rightarrow> call list" where
  "listCommits_calls n client cfg =
     calls_upto n (ListCommits client (Owner cfg) (Repo cfg)) commits_range
       (\<lambda>err. ([], Some err)) \<lparr>Page = 0, PerPage = 100\<rparr> [] []"

definition listForkers_calls :: "nat \<Rightarrow> heap \<Rightarrow> (string \<Rightarrow> error + time) \<Rightarrow> Client \<Rightarrow> Config
    \<Rightarrow> call list" where
  "listForkers_calls n h parseDate client cfg =
     (let useTimeFilter = length (StartDate cfg) > 0 \<and> length (EndDate cfg) > 0
      in case parseDates parseDate useTimeFilter cfg of
           Inl err \<Rightarrow> []
         | Inr (start, end') \<Rightarrow>
             calls_upto n (ListForks client (Owner cfg) (Repo cfg))
               (forks_range h (GetByID client) useTimeFilter start end')
               (\<lambda>err. ([], [], Some err)) \<lparr>Page = 0, PerPage = 100\<rparr> ([], []) [])"

definition listWatchers_calls :: "nat \<Rightarrow> heap \<Rightarrow> Client \<Rightarrow> Config \<Rightarrow> call list" where
  "listWatchers_calls n h client cfg =
     calls_upto n (ListWatchers client (Owner cfg) (Repo cfg))
       (watchers_range h (GetByID client))
       (\<lambda>err. ([], [], Some err)) \<lparr>Page = 0, PerPage = 100\<rparr> [] []"

definition listIssues_calls :: "nat \<Rightarrow> heap \<Rightarrow> Client \<Rightarrow> Config \<Rightarrow> call list" where
  "listIssues_calls n h client cfg =
     calls_upto n (ListByRepo client (Owner cfg) (Repo cfg))
       (issues_range h (GetByID client))
       (\<lambda>err. ([], Some err)) \<lparr>Page = 0, PerPage = 100\<rparr> ([], {}) []"

definition listStargazers_calls :: "nat \<Rightarrow> heap \<Rightarrow> (string \<Rightarrow> error + time) \<Rightarrow> Client \<Rightarrow> Config
    \<Rightarrow> bool \<Rightarrow> call list" where
  "listStargazers_calls n h parseDate client cfg onlyID =
     (let useTimeFilter = length (StartDate cfg) > 0 \<and> length (EndDate cfg) > 0
      in case parseDates parseDate useTimeFilter cfg of
           Inl err \<Rightarrow> []
         | Inr (start, end') \<Rightarrow>
             calls_upto n (ListStargazers client (Owner cfg) (Repo cfg))
               (stargazers_range h (GetByID client) onlyID useTimeFilter start end')
               (\<lambda>err. ([], [], Some err)) \<lparr>Page = 0, PerPage = 100\<rparr> ([], []) [])"

text \<open>
  First-seen order by key: for each key the first element that has it, in the order of the
  first occurrences.
\<close>

fun first_seen_by :: "('a \<Rightarrow> 'k) \<Rightarrow> 'a list \<Rightarrow> 'a list" where
  "first_seen_by key [] = []"
| "first_seen_by key (x # xs) = x # filter (\<lambda>y. key y \<noteq> key x) (first_seen_by key xs)"

section \<open>Properties of \<^verbatim>\<open>printRepos\<close>\<close>

lemma printRepos_range_Returns:
  "printRepos_range repos names out = (Returns names', out')
   \<Longrightarrow> map Some names' = map Some names @ map Name repos \<and> out' = out @ map RepoLine repos"
proof (induction repos arbitrary: names out)
  case Nil
  then show ?case by simp
next
  case (Cons repo repos)
  show ?case
  proof (cases "Name repo")
    case None
    with Cons.prems show ?thesis by simp
  next
    case (Some n)
    with Cons.prems
    have "printRepos_range repos (names @ [n]) (out @ [RepoLine repo]) = (Returns names', out')"
      by simp
    from Cons.IH [OF this] Some show ?thesis by simp
  qed
qed

text \<open>
  C6.  When \<^verbatim>\<open>printRepos\<close> returns, the last line it hands to the logger is the
  \<^verbatim>\<open>[repos]\<close> line, and the names joined in it are the names of the given
  repositories (each as often as it was given) in ascending lexicographic order.
\<close>

theorem printRepos_names_sorted:
  assumes "printRepos repos = (Returns (), out)"
  shows "\<exists>names. out = map RepoLine repos @ [ReposLine (''[repos]\<newline>'' @ Join names ''\<newline>'')]
           \<and> sorted names \<and> mset (map Some names) = mset (map Name repos)"
proof -
  obtain names0 out0 where r: "printRepos_range repos [] [] = (Returns names0, out0)"
    and o: "out = out0 @ [ReposLine (''[repos]\<newline>'' @ Join (sort names0) ''\<newline>'')]"
    using assms
    by (auto simp: printRepos_def Let_def split: prod.splits outcome.splits)
  from printRepos_range_Returns [OF r]
  have n: "map Some names0 = map Name repos" and o0: "out0 = map RepoLine repos" by simp_all
  have "mset (map Some (sort names0)) = mset (map Some names0)"
    by simp
  with n o o0 show ?thesis
    by (intro exI [of _ "sort names0"]) simp
qed

theorem printRepos_names_sorted_witness:
  "printRepos [\<lparr>Name = Some ''zeta'', RepoOwner = None, CreatedAt = None\<rparr>,
               \<lparr>Name = Some ''alpha'', RepoOwner = None, CreatedAt = None\<rparr>,
               \<lparr>Name = Some ''mu'', RepoOwner = None, CreatedAt = None\<rparr>]
   = (Returns (),
      [RepoLine \<lparr>Name = Some ''zeta'', RepoOwner = None, CreatedAt = None\<rparr>,
       RepoLine \<lparr>Name = Some ''alpha'', RepoOwner = None, CreatedAt = None\<rparr>,
       RepoLine \<lparr>Name = Some ''mu'', RepoOwner = None, CreatedAt = None\<rparr>,
       ReposLine ''[repos]\<newline>alpha\<newline>mu\<newline>zeta''])
   \<and> (\<exists>names. ''[repos]\<newline>alpha\<newline>mu\<newline>zeta'' = ''[repos]\<newline>'' @ Join names ''\<newline>''
         \<and> sorted names
         \<and> mset (map Some names) = {#Some ''zeta'', Some ''alpha'', Some ''mu''#})"
proof -
  let ?repos = "[\<lparr>Name = Some ''zeta'', RepoOwner = None, CreatedAt = None\<rparr>,
                 \<lparr>Name = Some ''alpha'', RepoOwner = None, CreatedAt = None\<rparr>,
                 \<lparr>Name = Some ''mu'', RepoOwner = None, CreatedAt = None\<rparr>]"
  have s: "sort [''zeta'', ''alpha'', ''mu''] = [''alpha'', ''mu'', ''zeta'']"
    by (simp add: less_eq_char_def less_char_def)
  have run: "printRepos ?repos = (Returns (), map RepoLine ?repos
      @ [ReposLine ''[repos]\<newline>alpha\<newline>mu\<newline>zeta''])"
    by (simp add: printRepos_def s)
  from printRepos_names_sorted [OF run] run show ?thesis
    by simp
qed

section \<open>Properties of \<^verbatim>\<open>listUsers\<close>\<close>

declare listUsers_loop.simps [simp del]

lemmas listUsers_eval =
  listUsers_def only_file_def listUsers_loop.simps TrimSpace_def Fields_def spaceWidth_def
  spaceRunes_def ParseInt_def ParseUint_def digit_def lookup_client_def less_eq_char_def

lemma ReadString_no_delim: "d \<notin> set s \<Longrightarrow> ReadString d s = (s, True, [])"
  by (induction s) auto

lemma ReadString_found:
  "ReadString d s = (l, False, r) \<Longrightarrow> s = l @ r \<and> l \<noteq> [] \<and> last l = d \<and> d \<notin> set (butlast l)"
  by (induction s arbitrary: l) (auto split: if_splits prod.splits)

lemma ReadString_eof: "ReadString d s = (l, True, r) \<Longrightarrow> d \<notin> set s"
  by (induction s arbitrary: l) (auto split: if_splits prod.splits)

lemma ReadString_append:
  "ReadString d s = (l, False, r) \<Longrightarrow> ReadString d (s @ t) = (l, False, r @ t)"
  by (induction s arbitrary: l) (auto split: if_splits prod.splits)

lemma ReadString_line: "d \<notin> set l \<Longrightarrow> ReadString d (l @ d # t) = (l @ [d], False, t)"
  by (induction l) auto

lemma listUsers_loop_eof:
  "CHR 0x0A \<notin> set s \<Longrightarrow> listUsers_loop get s users calls = (Returns (users, None), calls)"
  by (simp add: listUsers_loop.simps ReadString_no_delim)

text \<open>
  Reading a file that continues after complete lines is reading the complete lines first
  and, unless that run ends early, the continuation next.
\<close>

lemma listUsers_loop_append:
  "pre = [] \<or> last pre = CHR 0x0A \<Longrightarrow>
   listUsers_loop get (pre @ rest) users calls =
     (case listUsers_loop get pre users calls of
        (Returns (us, None), cs) \<Rightarrow> listUsers_loop get rest us cs
      | r \<Rightarrow> r)"
proof (induction "length pre" arbitrary: pre users calls rule: less_induct)
  case less
  show ?case
  proof (cases "pre = []")
    case True
    then show ?thesis by (simp add: listUsers_loop_eof)
  next
    case False
    with less.prems have "CHR 0x0A \<in> set pre"
      by (metis last_in_set)
    then obtain l r where rs: "ReadString CHR 0x0A pre = (l, False, r)"
      by (metis ReadString_eof prod_cases3)
    from ReadString_found [OF rs] have pre: "pre = l @ r" and l: "l \<noteq> []" by simp_all
    then have len: "length r < length pre" by simp
    from pre False less.prems have r: "r = [] \<or> last r = CHR 0x0A"
      by (cases "r = []") auto
    note ih = less.hyps [OF len r]
    show ?thesis
      by (subst listUsers_loop.simps, subst (2) listUsers_loop.simps)
        (simp add: rs ReadString_append [OF rs] ih
          split: list.splits sum.splits)
  qed
qed

text \<open>
  C9.  The claim is that \<^verbatim>\<open>datas[0]\<close> is in bounds for every file, blank lines included.
  On a file that is one empty line, and on a file whose second line holds only a blank,
  \<^verbatim>\<open>strings.Fields\<close> returns the empty slice and \<^verbatim>\<open>listUsers\<close> panics at the index; in
  the second file after the lookup for the first line.
\<close>

theorem listUsers_blank_line_panics:
  "listUsers (only_file ''\<newline>'') lookup_client ''users.txt'' = (Panics, [])
   \<and> listUsers (only_file ''1\<newline> \<newline>2\<newline>'') lookup_client ''users.txt''
       = (Panics, [CallGetByID 1])"
  by (simp add: listUsers_eval)

text \<open>
  C10.  When the file ends in a line without a newline, \<^verbatim>\<open>listUsers\<close> runs as it does on
  the file without that line: it returns the same users and issues the same lookups, so it
  neither looks that line's identifier up nor returns a user for it.
\<close>

theorem listUsers_unterminated_final_line:
  assumes "CHR 0x0A \<notin> set final" and "body = [] \<or> last body = CHR 0x0A"
  shows "listUsers (only_file (body @ final)) client file = listUsers (only_file body) client file"
  using assms
  by (simp add: listUsers_def only_file_def listUsers_loop_append listUsers_loop_eof
      split: prod.splits outcome.splits option.splits)

theorem listUsers_unterminated_final_line_witness:
  "CHR 0x0A \<notin> set ''2'' \<and> last ''1\<newline>'' = CHR 0x0A
   \<and> listUsers (only_file ''1\<newline>2'') lookup_client ''users.txt''
       = (Returns ([alice], None), [CallGetByID 1])"
proof -
  have a: "CHR 0x0A \<notin> set ''2''" by simp
  have b: "''1\<newline>'' = [] \<or> last ''1\<newline>'' = CHR 0x0A" by simp
  have c: "listUsers (only_file ''1\<newline>'') lookup_client ''users.txt''
      = (Returns ([alice], None), [CallGetByID 1])"
    by (simp add: listUsers_eval)
  from listUsers_unterminated_final_line [OF a b, of lookup_client "''users.txt''"] c
  show ?thesis by simp
qed

text \<open>
  C8.  The claim is that a line whose first field is no number makes \<^verbatim>\<open>listUsers\<close>
  abort with an error.  The file \<^verbatim>\<open>abc\<close>, without a newline, has one line, whose first
  field \<^verbatim>\<open>strconv.ParseInt\<close> rejects; \<^verbatim>\<open>ReadString\<close> returns it together with
  \<^verbatim>\<open>io.EOF\<close>, the loop breaks before it parses the line, and \<^verbatim>\<open>listUsers\<close> returns an
  empty list and no error.
\<close>

theorem listUsers_unterminated_malformed_line_accepted:
  "Fields (TrimSpace ''abc'') = [''abc''] \<and> ParseInt ''abc'' = Inl (ErrSyntax ''abc'')
   \<and> listUsers (only_file ''abc'') lookup_client ''users.txt'' = (Returns ([], None), [])"
  by (simp add: listUsers_eval)

text \<open>
  On every line that ends in a newline the code does abort: let a file hold such a line
  with a first field that \<^verbatim>\<open>strconv.ParseInt\<close> rejects.  When the run over the lines
  before it ends early, this is the result; otherwise the result is the error of
  \<^verbatim>\<open>ParseInt\<close> with a nil list, after the lookups for the lines before and no other, so
  that no later line is read.
\<close>

lemma listUsers_malformed_line_aborts:
  assumes "pre = [] \<or> last pre = CHR 0x0A" and "CHR 0x0A \<notin> set line"
    and "Fields (TrimSpace (line @ ''\<newline>'')) = d # ds" and "ParseInt d = Inl err"
  shows "listUsers (only_file (pre @ line @ ''\<newline>'' @ post)) client file =
           (case listUsers (only_file pre) client file of
              (Returns (us, None), cs) \<Rightarrow> (Returns ([], Some (Trace err)), cs)
            | r \<Rightarrow> r)
         \<and> (\<forall>us cs. listUsers (only_file (pre @ line @ ''\<newline>'' @ post)) client file
               \<noteq> (Returns (us, None), cs))"
proof -
  have "listUsers_loop get (line @ ''\<newline>'' @ post) us cs = (Returns ([], Some (Trace err)), cs)"
    for get us cs
    using assms(2-4) by (simp add: listUsers_loop.simps ReadString_line)
  with assms(1) have "listUsers (only_file (pre @ line @ ''\<newline>'' @ post)) client file =
           (case listUsers (only_file pre) client file of
              (Returns (us, None), cs) \<Rightarrow> (Returns ([], Some (Trace err)), cs)
            | r \<Rightarrow> r)"
    by (simp add: listUsers_def only_file_def listUsers_loop_append
        split: prod.splits outcome.splits option.splits)
  then show ?thesis
    by (auto split: prod.splits outcome.splits option.splits)
qed

lemma listUsers_malformed_line_aborts_example:
  "last ''1\<newline>'' = CHR 0x0A \<and> CHR 0x0A \<notin> set ''x7 y''
   \<and> Fields (TrimSpace ''x7 y\<newline>'') = [''x7'', ''y''] \<and> ParseInt ''x7'' = Inl (ErrSyntax ''x7'')
   \<and> listUsers (only_file ''1\<newline>x7 y\<newline>2\<newline>'') lookup_client ''users.txt''
       = (Returns ([], Some (Trace (ErrSyntax ''x7''))), [CallGetByID 1])"
proof -
  have a: "''1\<newline>'' = [] \<or> last ''1\<newline>'' = CHR 0x0A" by simp
  have b: "CHR 0x0A \<notin> set ''x7 y''" by simp
  have c: "Fields (TrimSpace (''x7 y'' @ ''\<newline>'')) = [''x7'', ''y'']"
    by (simp add: TrimSpace_def Fields_def spaceWidth_def spaceRunes_def)
  have d: "ParseInt ''x7'' = Inl (ErrSyntax ''x7'')"
    by (simp add: ParseInt_def ParseUint_def digit_def less_eq_char_def)
  have e: "listUsers (only_file ''1\<newline>'') lookup_client ''users.txt''
      = (Returns ([alice], None), [CallGetByID 1])"
    by (simp add: listUsers_eval)
  from listUsers_malformed_line_aborts [OF a b c d, of "''2\<newline>''" lookup_client "''users.txt''"]
    c d e
  show ?thesis by simp
qed

section \<open>Properties of the pagination loop\<close>

lemmas sample_defs =
  alice_def bob_def alice_again_def sample_heap_def commit_by_def sample_cfg_def
  sample_client_def two_pages_def no_pages_def
  issue_by_def fork_by_def star_by_def failing_client_def sample_parseDate_def window_cfg_def
  nil_author_client_def

text \<open>When the listing serves finitely many pages, the loop is the body run over them.\<close>

lemma for_pages_walk:
  "pages_from n fetch opt = Some pgs
   \<Longrightarrow> for_pages fetch body fail opt st calls = Some (run_pages body pgs st calls)"
proof (induction n arbitrary: opt pgs st calls)
  case 0
  then show ?case by simp
next
  case (Suc n)
  from Suc.prems obtain items resp where f: "fetch opt = Inr (items, resp)"
    by (auto split: sum.splits)
  show ?case
  proof (cases "NextPage resp = 0")
    case True
    with Suc.prems f have "pgs = [(opt, items)]" by simp
    with f True show ?thesis
      by (subst for_pages.simps) (simp split: prod.splits sum.splits)
  next
    case False
    with Suc.prems f obtain pgs' where
      p: "pages_from n fetch (opt\<lparr>Page := NextPage resp\<rparr>) = Some pgs'"
      and pgs: "pgs = (opt, items) # pgs'"
      by auto
    show ?thesis
      by (subst for_pages.simps)
        (simp add: f False pgs Suc.IH [OF p] split: prod.splits sum.splits)
  qed
qed

lemma for_pages_exit_ok:
  fixes fetch :: "ListOptions \<Rightarrow> error + 'i list \<times> Response"
    and body :: "'i list \<Rightarrow> 's \<Rightarrow> call list \<Rightarrow> ('r outcome + 's) \<times> call list"
  assumes run: "for_pages fetch body fail opt st calls = Some r"
    and ok: "\<forall>c \<in> set calls. \<not> call_failed fetch get c"
    and body: "\<And>items st calls. \<forall>c \<in> set calls. \<not> call_failed fetch get c
        \<Longrightarrow> exit_ok fetch get fail (body items st calls)"
  shows "exit_ok fetch get fail r"
proof -
  let ?P = "\<lambda>fetch' body' fail' (opt :: ListOptions) (st :: 's) calls r.
      fetch' = fetch \<and> body' = body \<and> fail' = fail
        \<and> (\<forall>c \<in> set calls. \<not> call_failed fetch get c)
      \<longrightarrow> exit_ok fetch get fail r"
  have "?P fetch body fail opt st calls r"
  proof (rule for_pages.raw_induct [where P = ?P, OF _ run], intro impI, elim conjE)
    fix loop fetch' body' fail' opt st calls r
    assume ih: "\<And>fetch' body' fail' opt st calls r.
        loop fetch' body' fail' opt st calls = Some r \<Longrightarrow> ?P fetch' body' fail' opt st calls r"
      and step: "(case fetch' opt of
          Inl err \<Rightarrow> Some (Inl (Returns (fail' (Trace err))), calls @ [CallList opt])
        | Inr (items, resp) \<Rightarrow>
            (case body' items st (calls @ [CallList opt]) of
               (Inl out, calls') \<Rightarrow> Some (Inl out, calls')
             | (Inr st', calls') \<Rightarrow>
                 if NextPage resp = 0 then Some (Inr st', calls')
                 else loop fetch' body' fail' (opt\<lparr>Page := NextPage resp\<rparr>) st' calls')) = Some r"
      and eq: "fetch' = fetch" "body' = body" "fail' = fail"
      and ok: "\<forall>c \<in> set calls. \<not> call_failed fetch get c"
    show "exit_ok fetch get fail r"
    proof (cases "fetch opt")
      case (Inl err)
      with step eq show ?thesis by (auto simp: exit_ok_def)
    next
      case (Inr p)
      obtain items resp where p: "p = (items, resp)" by (cases p)
      from Inr ok have ok': "\<forall>c \<in> set (calls @ [CallList opt]). \<not> call_failed fetch get c"
        by (auto simp: call_failed_def)
      note b = body [OF ok', of items st]
      obtain x calls' where bx: "body items st (calls @ [CallList opt]) = (x, calls')"
        by (cases "body items st (calls @ [CallList opt])")
      show ?thesis
      proof (cases x)
        case (Inl out)
        with step eq Inr p bx b show ?thesis by simp
      next
        case x: (Inr st')
        show ?thesis
        proof (cases "NextPage resp = 0")
          case True
          with step eq Inr p bx b x show ?thesis by simp
        next
          case False
          with step eq Inr p bx x
          have "loop fetch body fail (opt\<lparr>Page := NextPage resp\<rparr>) st' calls' = Some r"
            by simp
          from ih [OF this] b bx x show ?thesis
            by (simp add: exit_ok_def)
        qed
      qed
    qed
  qed
  with ok show ?thesis by blast
qed


section \<open>Properties of \<^verbatim>\<open>listCommits\<close>\<close>

text \<open>
  C1.  The claim is that no two returned users share a numeric ID.  The map of
  \<^verbatim>\<open>listCommits\<close> is keyed by the pointer \<^verbatim>\<open>user.ID\<close>, not by the number it points to.
  Here the author with ID 1 has a commit on each of two pages, decoded into two cells;
  \<^verbatim>\<open>listCommits\<close> returns that author twice, and the numeric IDs of the result are 1, 2, 1.
\<close>

theorem listCommits_duplicate_numeric_id:
  "listCommits [] sample_client sample_cfg =
     Some (Returns ([alice, bob, alice_again], None),
           [CallList \<lparr>Page = 0, PerPage = 100\<rparr>, CallList \<lparr>Page = 2, PerPage = 100\<rparr>])
   \<and> map (deref_ID sample_heap \<circ> Some) [alice, bob, alice_again] = [Some 1, Some 2, Some 1]"
  by (simp add: listCommits_def for_pages.simps sample_defs deref_ID_def)

lemma commits_range_calls:
  "commits_range cs users calls = (x, calls')
   \<Longrightarrow> calls' = calls \<and> (x = Inl Panics \<or> (\<exists>users'. x = Inr users'))"
  by (induction cs arbitrary: users) (auto split: option.splits)

lemma run_pages_commits_calls:
  "run_pages commits_range pgs users calls = (x, calls')
   \<Longrightarrow> prefix calls' (calls @ map (CallList \<circ> fst) pgs)
     \<and> (x = Inl Panics \<or> (\<exists>users'. x = Inr users' \<and> calls' = calls @ map (CallList \<circ> fst) pgs))"
proof (induction pgs arbitrary: users calls)
  case Nil
  then show ?case by auto
next
  case (Cons pg pgs)
  obtain opt items where pg: "pg = (opt, items)" by (cases pg)
  obtain y cs where b: "commits_range items users (calls @ [CallList opt]) = (y, cs)"
    by (cases "commits_range items users (calls @ [CallList opt])")
  from commits_range_calls [OF b] have cs: "cs = calls @ [CallList opt]"
    and y: "y = Inl Panics \<or> (\<exists>users'. y = Inr users')" by simp_all
  from y show ?case
  proof
    assume "y = Inl Panics"
    with Cons.prems pg b cs show ?thesis by auto
  next
    assume "\<exists>users'. y = Inr users'"
    then obtain users' where "y = Inr users'" ..
    with Cons.prems pg b cs
    have "run_pages commits_range pgs users' (calls @ [CallList opt]) = (x, calls')"
      by simp
    from Cons.IH [OF this] pg show ?thesis by simp
  qed
qed

text \<open>
  When the commit listing, walked from the first request, serves the pages \<open>pgs\<close>, the
  last of which is the first to carry \<^verbatim>\<open>NextPage\<close> 0, \<^verbatim>\<open>listCommits\<close> ends; unless it
  panics, its calls are exactly one request per page of \<open>pgs\<close>, in order.
\<close>

lemma listCommits_requests:
  assumes "pages_from n (ListCommits client (Owner cfg) (Repo cfg)) \<lparr>Page = 0, PerPage = 100\<rparr>
            = Some pgs"
  shows "\<exists>out calls. listCommits seed client cfg = Some (out, calls)
           \<and> prefix calls (map (CallList \<circ> fst) pgs)
           \<and> (out \<noteq> Panics \<longrightarrow> calls = map (CallList \<circ> fst) pgs)"
proof -
  obtain x calls where r: "run_pages commits_range pgs [] [] = (x, calls)"
    by (cases "run_pages commits_range pgs ([] :: (addr option \<times> User) list) []")
  from for_pages_walk [OF assms, where body = commits_range and st = "[]" and calls = "[]"] r
  have f: "for_pages (ListCommits client (Owner cfg) (Repo cfg)) commits_range
      (\<lambda>err. ([], Some err)) \<lparr>Page = 0, PerPage = 100\<rparr> [] [] = Some (x, calls)"
    by simp
  from run_pages_commits_calls [OF r]
  have p: "prefix calls (map (CallList \<circ> fst) pgs)"
    and x: "x = Inl Panics \<or> (\<exists>users'. x = Inr users' \<and> calls = map (CallList \<circ> fst) pgs)"
    by simp_all
  from x show ?thesis
  proof
    assume "x = Inl Panics"
    with f p show ?thesis by (simp add: listCommits_def)
  next
    assume "\<exists>users'. x = Inr users' \<and> calls = map (CallList \<circ> fst) pgs"
    with f p show ?thesis by (auto simp: listCommits_def)
  qed
qed

lemma listCommits_requests_example:
  "pages_from 2 (ListCommits sample_client (Owner sample_cfg) (Repo sample_cfg))
       \<lparr>Page = 0, PerPage = 100\<rparr>
     = Some [(\<lparr>Page = 0, PerPage = 100\<rparr>, [commit_by alice, commit_by bob]),
             (\<lparr>Page = 2, PerPage = 100\<rparr>, [commit_by alice_again])]
   \<and> (\<exists>out. listCommits [] sample_client sample_cfg =
         Some (out, [CallList \<lparr>Page = 0, PerPage = 100\<rparr>, CallList \<lparr>Page = 2, PerPage = 100\<rparr>])
        \<and> out \<noteq> Panics)"
proof -
  have p: "pages_from 2 (ListCommits sample_client (Owner sample_cfg) (Repo sample_cfg))
       \<lparr>Page = 0, PerPage = 100\<rparr>
     = Some [(\<lparr>Page = 0, PerPage = 100\<rparr>, [commit_by alice, commit_by bob]),
             (\<lparr>Page = 2, PerPage = 100\<rparr>, [commit_by alice_again])]"
    by (simp add: numeral_2_eq_2 sample_client_def two_pages_def)
  have q: "\<exists>us. listCommits [] sample_client sample_cfg = Some (Returns us,
      [CallList \<lparr>Page = 0, PerPage = 100\<rparr>, CallList \<lparr>Page = 2, PerPage = 100\<rparr>])"
    by (simp add: listCommits_def for_pages.simps sample_defs)
  from listCommits_requests [OF p, of "[]"] p q show ?thesis
    by auto
qed

text \<open>
  C5.  The claim is that on a listing that reaches \<^verbatim>\<open>NextPage\<close> 0 the loop issues one
  request per page and stops after the page that carries it.  Here the listing has two
  pages, the second with \<^verbatim>\<open>NextPage\<close> 0, and the first holds a commit without author:
  \<^verbatim>\<open>listCommits\<close> dereferences \<^verbatim>\<open>commit.Author\<close> unchecked, panics on the first page and
  never requests the second.
\<close>

theorem listCommits_nil_author_stops_paging:
  "pages_from 2 (ListCommits nil_author_client (Owner sample_cfg) (Repo sample_cfg))
       \<lparr>Page = 0, PerPage = 100\<rparr>
     = Some [(\<lparr>Page = 0, PerPage = 100\<rparr>, [commit_by alice, \<lparr>SHA = None, Author = None\<rparr>]),
             (\<lparr>Page = 2, PerPage = 100\<rparr>, [commit_by bob])]
   \<and> listCommits [] nil_author_client sample_cfg
     = Some (Panics, [CallList \<lparr>Page = 0, PerPage = 100\<rparr>])"
  by (simp add: numeral_2_eq_2 listCommits_def for_pages.simps sample_defs)

section \<open>Order of the returned users\<close>

lemma remdups_snoc: "remdups (ys @ [x]) = filter (\<lambda>y. y \<noteq> x) (remdups ys) @ [x]"
  by (induction ys) auto

lemma first_seen_Cons: "first_seen (x # xs) = x # filter (\<lambda>y. y \<noteq> x) (first_seen xs)"
  by (simp add: first_seen_def remdups_snoc rev_filter)

lemma first_seen_Nil: "first_seen [] = []"
  by (simp add: first_seen_def)

lemma first_seen_append:
  "first_seen (xs @ ys) = first_seen xs @ filter (\<lambda>y. y \<notin> set xs) (first_seen ys)"
proof (induction xs)
  case Nil
  then show ?case by (simp add: first_seen_Nil)
next
  case (Cons x xs)
  have "filter (\<lambda>y. y \<noteq> x) (filter (\<lambda>y. y \<notin> set xs) (first_seen ys))
      = filter (\<lambda>y. y \<notin> set (x # xs)) (first_seen ys)"
    by (auto intro: filter_cong)
  with Cons show ?case by (simp add: first_seen_Cons)
qed

lemma mset_go_range: "mset (go_range seed xs) = mset xs"
proof (induction seed xs rule: go_range.induct)
  case (3 n seed x xs)
  let ?ys = "x # xs"
  let ?i = "n mod length ?ys"
  have i: "?i < length ?ys" by simp
  have "mset ?ys = mset (take ?i ?ys @ ?ys ! ?i # drop (Suc ?i) ?ys)"
    using id_take_nth_drop [OF i] by simp
  also have "\<dots> = add_mset (?ys ! ?i) (mset (take ?i ?ys @ drop (Suc ?i) ?ys))"
    by simp
  finally show ?case using 3 by (simp add: Let_def del: take_Cons' drop_Suc_Cons)
qed simp_all


lemma go_range_Nil: "go_range [] xs = xs"
  by (cases xs) simp_all

lemma commits_range_Inr:
  "commits_range cs users calls = (Inr users', calls')
   \<Longrightarrow> \<exists>new. users' = users @ new \<and> subseq (map (\<lambda>e. Some (snd e)) new) (map Author cs)"
proof (induction cs arbitrary: users)
  case Nil
  then show ?case by simp
next
  case (Cons c cs)
  from Cons.prems obtain user where a: "Author c = Some user"
    by (cases "Author c") auto
  show ?case
  proof (cases "map_of users (ID user)")
    case None
    with Cons.prems a
    have "commits_range cs (users @ [(ID user, user)]) calls = (Inr users', calls')"
      by simp
    from Cons.IH [OF this] obtain new where
      "users' = users @ (ID user, user) # new" "subseq (map (\<lambda>e. Some (snd e)) new) (map Author cs)"
      by auto
    with a show ?thesis
      by (intro exI [of _ "(ID user, user) # new"]) simp
  next
    case (Some u)
    with Cons.prems a have "commits_range cs users calls = (Inr users', calls')"
      by simp
    from Cons.IH [OF this] show ?thesis
      by (auto intro: subseq_Cons2')
  qed
qed

lemma run_pages_commits_Inr:
  "run_pages commits_range pgs users calls = (Inr users', calls')
   \<Longrightarrow> \<exists>new. users' = users @ new
         \<and> subseq (map (\<lambda>e. Some (snd e)) new) (map Author (concat (map snd pgs)))"
proof (induction pgs arbitrary: users calls)
  case Nil
  then show ?case by simp
next
  case (Cons pg pgs)
  obtain opt items where pg: "pg = (opt, items)" by (cases pg)
  obtain y cs where b: "commits_range items users (calls @ [CallList opt]) = (y, cs)"
    by (cases "commits_range items users (calls @ [CallList opt])")
  with Cons.prems pg obtain users1 where y: "y = Inr users1"
    by (cases y) auto
  from commits_range_Inr [OF b [unfolded y]] obtain new1 where
    n1: "users1 = users @ new1" "subseq (map (\<lambda>e. Some (snd e)) new1) (map Author items)"
    by blast
  from Cons.prems pg b y have "run_pages commits_range pgs users1 cs = (Inr users', calls')"
    by simp
  from Cons.IH [OF this] obtain new2 where
    n2: "users' = users1 @ new2"
      "subseq (map (\<lambda>e. Some (snd e)) new2) (map Author (concat (map snd pgs)))"
    by blast
  from n1 n2 pg show ?case
    by (intro exI [of _ "new1 @ new2"]) (simp add: list_emb_append_mono)
qed

lemma issues_range_Inr:
  "issues_range h get issues (users, cache) calls = (Inr (users', cache'), calls')
   \<Longrightarrow> \<exists>ids. map Some ids = map (deref_ID h \<circ> IssueUser) issues
         \<and> map Inr users' = map Inr users @ map get (filter (\<lambda>i. i \<notin> cache) (first_seen ids))
         \<and> cache' = cache \<union> set ids"
proof (induction issues arbitrary: users cache calls)
  case Nil
  then show ?case by (simp add: first_seen_Nil)
next
  case (Cons issue issues)
  from Cons.prems obtain i where i: "deref_ID h (IssueUser issue) = Some i"
    by (cases "deref_ID h (IssueUser issue)") auto
  show ?case
  proof (cases "i \<in> cache")
    case True
    with Cons.prems i
    have "issues_range h get issues (users, cache) calls = (Inr (users', cache'), calls')"
      by simp
    from Cons.IH [OF this] obtain ids where ids:
      "map Some ids = map (deref_ID h \<circ> IssueUser) issues"
      "map Inr users' = map Inr users @ map get (filter (\<lambda>i. i \<notin> cache) (first_seen ids))"
      "cache' = cache \<union> set ids"
      by blast
    have "filter (\<lambda>j. j \<notin> cache) (filter (\<lambda>y. y \<noteq> i) (first_seen ids))
        = filter (\<lambda>j. j \<notin> cache) (first_seen ids)"
      using True by (auto intro: filter_cong)
    with ids i True show ?thesis
      by (intro exI [of _ "i # ids"]) (auto simp: first_seen_Cons)
  next
    case False
    with Cons.prems i obtain user where g: "get i = Inr user"
      by (cases "get i") auto
    with Cons.prems i False
    have "issues_range h get issues (users @ [user], insert i cache) (calls @ [CallGetByID i])
        = (Inr (users', cache'), calls')"
      by simp
    from Cons.IH [OF this] obtain ids where ids:
      "map Some ids = map (deref_ID h \<circ> IssueUser) issues"
      "map Inr users' = map Inr (users @ [user])
          @ map get (filter (\<lambda>j. j \<notin> insert i cache) (first_seen ids))"
      "cache' = insert i cache \<union> set ids"
      by blast
    have "filter (\<lambda>j. j \<notin> cache) (filter (\<lambda>y. y \<noteq> i) (first_seen ids))
        = filter (\<lambda>j. j \<notin> insert i cache) (first_seen ids)"
      by (auto intro: filter_cong)
    with ids i False g show ?thesis
      by (intro exI [of _ "i # ids"]) (auto simp: first_seen_Cons)
  qed
qed

lemma run_pages_issues_Inr:
  "run_pages (issues_range h get) pgs (users, cache) calls = (Inr (users', cache'), calls')
   \<Longrightarrow> \<exists>ids. map Some ids = map (deref_ID h \<circ> IssueUser) (concat (map snd pgs))
         \<and> map Inr users' = map Inr users @ map get (filter (\<lambda>i. i \<notin> cache) (first_seen ids))
         \<and> cache' = cache \<union> set ids"
proof (induction pgs arbitrary: users cache calls)
  case Nil
  then show ?case by (simp add: first_seen_Nil)
next
  case (Cons pg pgs)
  obtain opt items where pg: "pg = (opt, items)" by (cases pg)
  obtain y cs where b: "issues_range h get items (users, cache) (calls @ [CallList opt]) = (y, cs)"
    by (cases "issues_range h get items (users, cache) (calls @ [CallList opt])")
  with Cons.prems pg obtain users1 cache1 where y: "y = Inr (users1, cache1)"
    by (cases y) auto
  from issues_range_Inr [OF b [unfolded y]] obtain ids1 where ids1:
    "map Some ids1 = map (deref_ID h \<circ> IssueUser) items"
    "map Inr users1 = map Inr users @ map get (filter (\<lambda>i. i \<notin> cache) (first_seen ids1))"
    "cache1 = cache \<union> set ids1"
    by blast
  from Cons.prems pg b y
  have "run_pages (issues_range h get) pgs (users1, cache1) cs = (Inr (users', cache'), calls')"
    by simp
  from Cons.IH [OF this] obtain ids2 where ids2:
    "map Some ids2 = map (deref_ID h \<circ> IssueUser) (concat (map snd pgs))"
    "map Inr users' = map Inr users1 @ map get (filter (\<lambda>i. i \<notin> cache1) (first_seen ids2))"
    "cache' = cache1 \<union> set ids2"
    by blast
  have "filter (\<lambda>i. i \<notin> cache) (filter (\<lambda>y. y \<notin> set ids1) (first_seen ids2))
      = filter (\<lambda>i. i \<notin> cache1) (first_seen ids2)"
    using ids1(3) by (auto intro: filter_cong)
  with ids1 ids2 pg show ?case
    by (intro exI [of _ "ids1 @ ids2"]) (auto simp: first_seen_append)
qed


lemma run_pages_Inl:
  "run_pages body pgs st calls = (Inl out, cs)
   \<Longrightarrow> \<exists>items st' calls'. body items st' calls' = (Inl out, cs)"
proof (induction pgs arbitrary: st calls)
  case Nil
  then show ?case by simp
next
  case (Cons pg pgs)
  obtain opt items where pg: "pg = (opt, items)" by (cases pg)
  obtain y cs' where b: "body items st (calls @ [CallList opt]) = (y, cs')"
    by (cases "body items st (calls @ [CallList opt])")
  show ?case
  proof (cases y)
    case (Inl out')
    with Cons.prems pg b show ?thesis by auto
  next
    case (Inr st')
    with Cons.prems pg b have "run_pages body pgs st' cs' = (Inl out, cs)" by simp
    from Cons.IH [OF this] show ?thesis .
  qed
qed

lemma issues_range_Inl:
  "issues_range h get issues st calls = (Inl out, cs)
   \<Longrightarrow> out = Panics \<or> (\<exists>err. out = Returns ([], Some err))"
  by (induction h get issues st calls rule: issues_range.induct)
    (auto split: option.splits if_splits sum.splits)

text \<open>
  C2, as stated, fails for \<^verbatim>\<open>listCommits\<close>: it collects the authors in a map and returns
  them in the order of a \<^verbatim>\<open>range\<close> over the map, which Go does not specify.  Here the
  listing serves alice's commit before bob's, and under one iteration order the result has
  bob first.
\<close>

theorem listCommits_not_first_seen_order:
  "pages_from 2 (ListCommits sample_client (Owner sample_cfg) (Repo sample_cfg))
       \<lparr>Page = 0, PerPage = 100\<rparr>
     = Some [(\<lparr>Page = 0, PerPage = 100\<rparr>, [commit_by alice, commit_by bob]),
             (\<lparr>Page = 2, PerPage = 100\<rparr>, [commit_by alice_again])]
   \<and> listCommits [1] sample_client sample_cfg =
       Some (Returns ([bob, alice, alice_again], None),
             [CallList \<lparr>Page = 0, PerPage = 100\<rparr>, CallList \<lparr>Page = 2, PerPage = 100\<rparr>])
   \<and> first_seen [alice, bob, alice_again] \<noteq> [bob, alice, alice_again]"
  by (simp add: numeral_2_eq_2 listCommits_def for_pages.simps sample_defs first_seen_def)

lemma first_seen_by_append:
  "first_seen_by key (xs @ ys)
   = first_seen_by key xs @ filter (\<lambda>y. key y \<notin> key ` set xs) (first_seen_by key ys)"
proof (induction xs)
  case Nil
  then show ?case by simp
next
  case (Cons x xs)
  have "filter (\<lambda>y. key y \<noteq> key x) (filter (\<lambda>y. key y \<notin> key ` set xs) (first_seen_by key ys))
      = filter (\<lambda>y. key y \<notin> key ` set (x # xs)) (first_seen_by key ys)"
    by (auto intro: filter_cong)
  with Cons show ?case by simp
qed

lemma subseq_first_seen_by: "subseq (first_seen_by key xs) xs"
proof (induction xs)
  case Nil
  then show ?case by simp
next
  case (Cons x xs)
  have "subseq (filter (\<lambda>y. key y \<noteq> key x) (first_seen_by key xs)) (first_seen_by key xs)"
    by simp
  from this Cons have "subseq (filter (\<lambda>y. key y \<noteq> key x) (first_seen_by key xs)) xs"
    by (rule subseq_order.trans)
  then show ?case by simp
qed

lemma map_filter_key:
  "map key (filter (\<lambda>y. key y \<noteq> k) ys) = filter (\<lambda>y. y \<noteq> k) (map key ys)"
  by (induction ys) auto

lemma map_first_seen_by: "map key (first_seen_by key xs) = first_seen (map key xs)"
  by (induction xs) (simp_all add: first_seen_Nil first_seen_Cons map_filter_key)

lemma keys_first_seen_by: "key ` set (first_seen_by key xs) = key ` set xs"
proof -
  have "key ` set (first_seen_by key xs) = set (map key (first_seen_by key xs))"
    by simp
  also have "\<dots> = set (first_seen (map key xs))"
    by (simp only: map_first_seen_by)
  also have "\<dots> = set (map key xs)"
    by (simp add: first_seen_def)
  finally show ?thesis by simp
qed

text \<open>
  In the map of \<^verbatim>\<open>listCommits\<close> each entry's key is the \<^verbatim>\<open>ID\<close> of its user, and the
  entries are the authors first seen with their key.
\<close>

lemma commits_range_first_seen:
  "commits_range cs users calls = (Inr users', calls')
   \<Longrightarrow> map fst users = map (\<lambda>e. ID (snd e)) users
   \<Longrightarrow> \<exists>as. map Some as = map Author cs
         \<and> map snd users'
             = map snd users @ filter (\<lambda>a. ID a \<notin> set (map fst users)) (first_seen_by ID as)
         \<and> map fst users' = map (\<lambda>e. ID (snd e)) users'"
proof (induction cs arbitrary: users)
  case Nil
  then show ?case by simp
next
  case (Cons c cs)
  from Cons.prems(1) obtain user where a: "Author c = Some user"
    by (cases "Author c") auto
  show ?case
  proof (cases "map_of users (ID user)")
    case None
    then have new: "ID user \<notin> set (map fst users)"
      by (simp add: map_of_eq_None_iff)
    from None Cons.prems(1) a
    have r: "commits_range cs (users @ [(ID user, user)]) calls = (Inr users', calls')"
      by simp
    have k: "map fst (users @ [(ID user, user)])
        = map (\<lambda>e. ID (snd e)) (users @ [(ID user, user)])"
      using Cons.prems(2) by simp
    from Cons.IH [OF r k] obtain as where as:
      "map Some as = map Author cs"
      "map snd users' = map snd (users @ [(ID user, user)])
         @ filter (\<lambda>a. ID a \<notin> set (map fst (users @ [(ID user, user)]))) (first_seen_by ID as)"
      "map fst users' = map (\<lambda>e. ID (snd e)) users'"
      by blast
    have "filter (\<lambda>a. ID a \<notin> set (map fst users)) (filter (\<lambda>y. ID y \<noteq> ID user) (first_seen_by ID as))
        = filter (\<lambda>a. ID a \<notin> set (map fst (users @ [(ID user, user)]))) (first_seen_by ID as)"
      by (auto intro: filter_cong)
    with as a new show ?thesis
      by (intro exI [of _ "user # as"]) simp
  next
    case (Some u)
    then have old: "ID user \<in> set (map fst users)"
      by (metis map_of_eq_None_iff option.distinct(1) set_map)
    from Some Cons.prems(1) a have r: "commits_range cs users calls = (Inr users', calls')"
      by simp
    from Cons.IH [OF r Cons.prems(2)] obtain as where as:
      "map Some as = map Author cs"
      "map snd users' = map snd users
         @ filter (\<lambda>a. ID a \<notin> set (map fst users)) (first_seen_by ID as)"
      "map fst users' = map (\<lambda>e. ID (snd e)) users'"
      by blast
    have eq: "(\<lambda>x. ID x \<noteq> ID user \<and> ID x \<notin> set (map fst users))
        = (\<lambda>x. ID x \<notin> set (map fst users))"
      using old by (intro ext) metis
    have "filter (\<lambda>a. ID a \<notin> set (map fst users)) (filter (\<lambda>y. ID y \<noteq> ID user) (first_seen_by ID as))
        = filter (\<lambda>a. ID a \<notin> set (map fst users)) (first_seen_by ID as)"
      by (simp only: filter_filter eq)
    with as a old show ?thesis
      by (intro exI [of _ "user # as"]) simp
  qed
qed

lemma run_pages_commits_first_seen:
  "run_pages commits_range pgs users calls = (Inr users', calls')
   \<Longrightarrow> map fst users = map (\<lambda>e. ID (snd e)) users
   \<Longrightarrow> \<exists>as. map Some as = map Author (concat (map snd pgs))
         \<and> map snd users'
             = map snd users @ filter (\<lambda>a. ID a \<notin> set (map fst users)) (first_seen_by ID as)
         \<and> map fst users' = map (\<lambda>e. ID (snd e)) users'"
proof (induction pgs arbitrary: users calls)
  case Nil
  then show ?case by simp
next
  case (Cons pg pgs)
  obtain opt items where pg: "pg = (opt, items)" by (cases pg)
  obtain y cs where b: "commits_range items users (calls @ [CallList opt]) = (y, cs)"
    by (cases "commits_range items users (calls @ [CallList opt])")
  with Cons.prems(1) pg obtain users1 where y: "y = Inr users1"
    by (cases y) auto
  from commits_range_first_seen [OF b [unfolded y] Cons.prems(2)] obtain as1 where 1:
    "map Some as1 = map Author items"
    "map snd users1
       = map snd users @ filter (\<lambda>a. ID a \<notin> set (map fst users)) (first_seen_by ID as1)"
    "map fst users1 = map (\<lambda>e. ID (snd e)) users1"
    by blast
  from Cons.prems(1) pg b y have "run_pages commits_range pgs users1 cs = (Inr users', calls')"
    by simp
  from Cons.IH [OF this 1(3)] obtain as2 where 2:
    "map Some as2 = map Author (concat (map snd pgs))"
    "map snd users'
       = map snd users1 @ filter (\<lambda>a. ID a \<notin> set (map fst users1)) (first_seen_by ID as2)"
    "map fst users' = map (\<lambda>e. ID (snd e)) users'"
    by blast
  have keys1: "set (map fst users1) = set (map fst users) \<union> ID ` set as1"
  proof -
    have "set (map fst users1) = ID ` set (map snd users1)"
      by (simp add: 1(3) image_image)
    also have "\<dots> = ID ` set (map snd users)
        \<union> ID ` set (filter (\<lambda>a. ID a \<notin> set (map fst users)) (first_seen_by ID as1))"
      by (simp add: 1(2) image_Un)
    also have "ID ` set (map snd users) = set (map fst users)"
      by (simp add: Cons.prems(2) image_image)
    also have "set (map fst users)
        \<union> ID ` set (filter (\<lambda>a. ID a \<notin> set (map fst users)) (first_seen_by ID as1))
        = set (map fst users) \<union> ID ` set (first_seen_by ID as1)"
      by auto
    also have "ID ` set (first_seen_by ID as1) = ID ` set as1"
      by (rule keys_first_seen_by)
    finally show ?thesis .
  qed
  have "filter (\<lambda>a. ID a \<notin> set (map fst users))
          (filter (\<lambda>y. ID y \<notin> ID ` set as1) (first_seen_by ID as2))
      = filter (\<lambda>a. ID a \<notin> set (map fst users1)) (first_seen_by ID as2)"
    unfolding keys1 by (auto intro: filter_cong)
  with 1 2 pg show ?case
    by (intro exI [of _ "as1 @ as2"]) (simp add: first_seen_by_append)
qed

text \<open>
  C2, amended.  \<^verbatim>\<open>listIssues\<close> returns the users in first-seen order across the pages: the
  result is the profiles looked up for the IDs of the issues' users, each ID once, in the
  order of the first occurrences in the listing.  \<^verbatim>\<open>listCommits\<close> returns, in the
  unspecified iteration order of a Go map, the authors it has collected: for each key of
  its map the author first seen with that key in the listing, each once.  So its result is
  a permutation of those authors in first-seen order, and the iteration in insertion order
  returns them in first-seen order.
\<close>

theorem collection_order:
  "(pages_from n (ListByRepo client (Owner cfg) (Repo cfg)) \<lparr>Page = 0, PerPage = 100\<rparr> = Some pgs
      \<longrightarrow> listIssues h client cfg = Some (Returns (users, None), calls)
      \<longrightarrow> (\<exists>ids. map Some ids = map (deref_ID h \<circ> IssueUser) (concat (map snd pgs))
             \<and> map (GetByID client) (first_seen ids) = map Inr users))
   \<and> (pages_from m (ListCommits client (Owner cfg) (Repo cfg)) \<lparr>Page = 0, PerPage = 100\<rparr>
        = Some cpgs
      \<longrightarrow> listCommits seed client cfg = Some (Returns (authors, None), calls')
      \<longrightarrow> (\<exists>all. map Some all = map Author (concat (map snd cpgs))
             \<and> mset authors = mset (first_seen_by ID all)
             \<and> listCommits [] client cfg = Some (Returns (first_seen_by ID all, None), calls')))"
proof (intro conjI impI)
  assume p: "pages_from n (ListByRepo client (Owner cfg) (Repo cfg)) \<lparr>Page = 0, PerPage = 100\<rparr>
      = Some pgs"
    and r: "listIssues h client cfg = Some (Returns (users, None), calls)"
  obtain x cs where rp: "run_pages (issues_range h (GetByID client)) pgs ([], {}) [] = (x, cs)"
    by (cases "run_pages (issues_range h (GetByID client)) pgs ([], {}) []")
  from for_pages_walk [OF p, where body = "issues_range h (GetByID client)"
      and st = "([], {})" and calls = "[]"] rp
  have f: "for_pages (ListByRepo client (Owner cfg) (Repo cfg)) (issues_range h (GetByID client))
      fail \<lparr>Page = 0, PerPage = 100\<rparr> ([], {}) [] = Some (x, cs)" for fail
    by simp
  have "x \<noteq> Inl (Returns (users, None))"
    using run_pages_Inl [of "issues_range h (GetByID client)" pgs "([], {})" "[]" _ cs]
      issues_range_Inl [of h "GetByID client"] rp
    by fastforce
  with r f obtain cache where "x = Inr (users, cache)"
    by (cases x) (auto simp: listIssues_def)
  from run_pages_issues_Inr [OF rp [unfolded this]]
  show "\<exists>ids. map Some ids = map (deref_ID h \<circ> IssueUser) (concat (map snd pgs))
      \<and> map (GetByID client) (first_seen ids) = map Inr users"
    by auto
next
  assume p: "pages_from m (ListCommits client (Owner cfg) (Repo cfg)) \<lparr>Page = 0, PerPage = 100\<rparr>
      = Some cpgs"
    and r: "listCommits seed client cfg = Some (Returns (authors, None), calls')"
  obtain x cs where rp: "run_pages commits_range cpgs [] [] = (x, cs)"
    by (cases "run_pages commits_range cpgs ([] :: (addr option \<times> User) list) []")
  from for_pages_walk [OF p, where body = commits_range and st = "[]" and calls = "[]"] rp
  have f: "for_pages (ListCommits client (Owner cfg) (Repo cfg)) commits_range
      fail \<lparr>Page = 0, PerPage = 100\<rparr> [] [] = Some (x, cs)" for fail
    by simp
  from run_pages_commits_calls [OF rp] r f obtain us where x: "x = Inr us"
    by (auto simp: listCommits_def)
  with r f have a: "authors = go_range seed (map snd us)" and c: "calls' = cs"
    by (simp_all add: listCommits_def)
  from run_pages_commits_first_seen [OF rp [unfolded x]] obtain all where
    all: "map Some all = map Author (concat (map snd cpgs))"
    and us: "map snd us = first_seen_by ID all"
    by auto
  from f x a c all us
  show "\<exists>all. map Some all = map Author (concat (map snd cpgs))
      \<and> mset authors = mset (first_seen_by ID all)
      \<and> listCommits [] client cfg = Some (Returns (first_seen_by ID all, None), calls')"
    by (intro exI [of _ all]) (simp add: listCommits_def go_range_Nil mset_go_range)
qed

theorem collection_order_witness:
  "pages_from 2 (ListByRepo sample_client (Owner sample_cfg) (Repo sample_cfg))
       \<lparr>Page = 0, PerPage = 100\<rparr>
     = Some [(\<lparr>Page = 0, PerPage = 100\<rparr>, [issue_by bob, issue_by alice]),
             (\<lparr>Page = 2, PerPage = 100\<rparr>, [issue_by alice_again, issue_by bob])]
   \<and> listIssues sample_heap sample_client sample_cfg =
       Some (Returns ([bob, alice], None),
             [CallList \<lparr>Page = 0, PerPage = 100\<rparr>, CallGetByID 2, CallGetByID 1,
              CallList \<lparr>Page = 2, PerPage = 100\<rparr>])
   \<and> (\<exists>ids. map Some ids = [Some 2, Some 1, Some 1, Some 2]
         \<and> map (GetByID sample_client) (first_seen ids) = [Inr bob, Inr alice])
   \<and> pages_from 2 (ListCommits sample_client (Owner sample_cfg) (Repo sample_cfg))
       \<lparr>Page = 0, PerPage = 100\<rparr>
     = Some [(\<lparr>Page = 0, PerPage = 100\<rparr>, [commit_by alice, commit_by bob]),
             (\<lparr>Page = 2, PerPage = 100\<rparr>, [commit_by alice_again])]
   \<and> listCommits [1] sample_client sample_cfg =
       Some (Returns ([bob, alice, alice_again], None),
             [CallList \<lparr>Page = 0, PerPage = 100\<rparr>, CallList \<lparr>Page = 2, PerPage = 100\<rparr>])
   \<and> (\<exists>all. map Some all = [Some alice, Some bob, Some alice_again]
        \<and> mset [bob, alice, alice_again] = mset (first_seen_by ID all)
        \<and> listCommits [] sample_client sample_cfg =
            Some (Returns (first_seen_by ID all, None),
                  [CallList \<lparr>Page = 0, PerPage = 100\<rparr>, CallList \<lparr>Page = 2, PerPage = 100\<rparr>]))"
proof -
  let ?opt = "\<lparr>Page = 0, PerPage = 100\<rparr>"
  have p: "pages_from 2 (ListByRepo sample_client (Owner sample_cfg) (Repo sample_cfg)) ?opt
     = Some [(\<lparr>Page = 0, PerPage = 100\<rparr>, [issue_by bob, issue_by alice]),
             (\<lparr>Page = 2, PerPage = 100\<rparr>, [issue_by alice_again, issue_by bob])]"
    by (simp add: numeral_2_eq_2 sample_client_def two_pages_def)
  have r: "listIssues sample_heap sample_client sample_cfg =
       Some (Returns ([bob, alice], None),
             [CallList \<lparr>Page = 0, PerPage = 100\<rparr>, CallGetByID 2, CallGetByID 1,
              CallList \<lparr>Page = 2, PerPage = 100\<rparr>])"
    by (simp add: listIssues_def for_pages.simps sample_defs deref_ID_def)
  have q: "pages_from 2 (ListCommits sample_client (Owner sample_cfg) (Repo sample_cfg)) ?opt
     = Some [(\<lparr>Page = 0, PerPage = 100\<rparr>, [commit_by alice, commit_by bob]),
             (\<lparr>Page = 2, PerPage = 100\<rparr>, [commit_by alice_again])]"
    by (simp add: numeral_2_eq_2 sample_client_def two_pages_def)
  have c: "listCommits [1] sample_client sample_cfg =
       Some (Returns ([bob, alice, alice_again], None),
             [CallList \<lparr>Page = 0, PerPage = 100\<rparr>, CallList \<lparr>Page = 2, PerPage = 100\<rparr>])"
    by (simp add: listCommits_def for_pages.simps sample_defs)
  have d: "map (deref_ID sample_heap \<circ> IssueUser)
      [issue_by bob, issue_by alice, issue_by alice_again, issue_by bob]
      = [Some 2, Some 1, Some 1, Some 2]"
    by (simp add: sample_defs deref_ID_def)
  have a: "map Author [commit_by alice, commit_by bob, commit_by alice_again]
      = [Some alice, Some bob, Some alice_again]"
    by (simp add: commit_by_def)
  from collection_order [where n = 2 and m = 2 and client = sample_client
      and cfg = sample_cfg and h = sample_heap and seed = "[1]"
      and users = "[bob, alice]" and authors = "[bob, alice, alice_again]"
      and pgs = "[(\<lparr>Page = 0, PerPage = 100\<rparr>, [issue_by bob, issue_by alice]),
                  (\<lparr>Page = 2, PerPage = 100\<rparr>, [issue_by alice_again, issue_by bob])]"
      and cpgs = "[(\<lparr>Page = 0, PerPage = 100\<rparr>, [commit_by alice, commit_by bob]),
                   (\<lparr>Page = 2, PerPage = 100\<rparr>, [commit_by alice_again])]"
      and calls = "[CallList \<lparr>Page = 0, PerPage = 100\<rparr>, CallGetByID 2, CallGetByID 1,
                    CallList \<lparr>Page = 2, PerPage = 100\<rparr>]"
      and calls' = "[CallList \<lparr>Page = 0, PerPage = 100\<rparr>,
                     CallList \<lparr>Page = 2, PerPage = 100\<rparr>]"]
    p r q c d a
  show ?thesis by simp
qed

section \<open>Failing calls\<close>

lemma exit_ok_Inr: "exit_ok fetch get fail (Inr st, calls) \<longleftrightarrow> (\<forall>c \<in> set calls. \<not> call_failed fetch get c)"
  by (simp add: exit_ok_def)

lemma exit_ok_Panics: "exit_ok fetch get fail (Inl Panics, calls) \<longleftrightarrow> (\<forall>c \<in> set calls. \<not> call_failed fetch get c)"
  by (simp add: exit_ok_def)

lemma exit_ok_Returns: "exit_ok fetch get fail (Inl (Returns ret), calls) \<longleftrightarrow> (\<exists>err. ret = fail err)"
  by (simp add: exit_ok_def)

lemmas exit_ok_simps = exit_ok_Inr exit_ok_Panics exit_ok_Returns

lemma call_failed_GetByID: "call_failed fetch get (CallGetByID i) \<longleftrightarrow> isl (get i)"
  by (simp add: call_failed_def)

lemma commits_range_exit_ok:
  "\<forall>c \<in> set calls. \<not> call_failed fetch get c
   \<Longrightarrow> exit_ok fetch get (\<lambda>err. ([], Some err)) (commits_range cs users calls)"
  by (induction cs arbitrary: users) (auto simp: exit_ok_simps split: option.splits)

lemma forks_range_exit_ok:
  "\<forall>c \<in> set calls. \<not> call_failed fetch get c
   \<Longrightarrow> exit_ok fetch get (\<lambda>err. ([], [], Some err)) (forks_range h get u s e repos st calls)"
  by (induction h get u s e repos st calls rule: forks_range.induct)
    (auto simp: exit_ok_simps call_failed_GetByID split: option.splits bool.splits sum.splits)

lemma watchers_range_exit_ok:
  "\<forall>c \<in> set calls. \<not> call_failed fetch get c
   \<Longrightarrow> exit_ok fetch get (\<lambda>err. ([], [], Some err)) (watchers_range h get us st calls)"
  by (induction h get us st calls rule: watchers_range.induct)
    (auto simp: exit_ok_simps call_failed_GetByID split: option.splits bool.splits sum.splits)

lemma issues_range_exit_ok:
  "\<forall>c \<in> set calls. \<not> call_failed fetch get c
   \<Longrightarrow> exit_ok fetch get (\<lambda>err. ([], Some err)) (issues_range h get is st calls)"
  by (induction h get "is" st calls rule: issues_range.induct)
    (auto simp: exit_ok_simps call_failed_GetByID split: option.splits bool.splits sum.splits)

lemma stargazers_range_exit_ok:
  "\<forall>c \<in> set calls. \<not> call_failed fetch get c
   \<Longrightarrow> exit_ok fetch get (\<lambda>err. ([], [], Some err))
        (stargazers_range h get onlyID u s e sgs st calls)"
  by (induction h get onlyID u s e sgs st calls rule: stargazers_range.induct)
    (auto simp: exit_ok_simps call_failed_GetByID split: option.splits bool.splits sum.splits)

lemma for_pages_failed_call:
  fixes fetch :: "ListOptions \<Rightarrow> error + 'i list \<times> Response"
    and body :: "'i list \<Rightarrow> 's \<Rightarrow> call list \<Rightarrow> ('r outcome + 's) \<times> call list"
  assumes run: "for_pages fetch body fail opt st [] = Some (x, calls)"
    and body: "\<And>items st calls. \<forall>c \<in> set calls. \<not> call_failed fetch get c
        \<Longrightarrow> exit_ok fetch get fail (body items st calls)"
    and failed: "\<exists>c \<in> set calls. call_failed fetch get c"
  shows "\<exists>err. x = Inl (Returns (fail err))"
proof -
  have "exit_ok fetch get fail (x, calls)"
    by (rule for_pages_exit_ok [OF run _ body]) simp_all
  with failed show ?thesis
    by (cases x; cases "projl x") (auto simp: exit_ok_simps)
qed


text \<open>
  In a run that has ended, a failed call in the log means an error and nil slices.
\<close>

lemma failed_call_in_finished_run:
  "(listCommits seed client cfg = Some (outC, callsC)
      \<longrightarrow> (\<exists>c \<in> set callsC. call_failed (ListCommits client (Owner cfg) (Repo cfg)) (GetByID client) c)
      \<longrightarrow> (\<exists>err. outC = Returns ([], Some err)))
   \<and> (listForkers h parseDate client cfg = Some (outF, callsF)
      \<longrightarrow> (\<exists>c \<in> set callsF. call_failed (ListForks client (Owner cfg) (Repo cfg)) (GetByID client) c)
      \<longrightarrow> (\<exists>err. outF = Returns ([], [], Some err)))
   \<and> (listWatchers h client cfg = Some (outW, callsW)
      \<longrightarrow> (\<exists>c \<in> set callsW. call_failed (ListWatchers client (Owner cfg) (Repo cfg)) (GetByID client) c)
      \<longrightarrow> (\<exists>err. outW = Returns ([], [], Some err)))
   \<and> (listIssues h client cfg = Some (outI, callsI)
      \<longrightarrow> (\<exists>c \<in> set callsI. call_failed (ListByRepo client (Owner cfg) (Repo cfg)) (GetByID client) c)
      \<longrightarrow> (\<exists>err. outI = Returns ([], Some err)))
   \<and> (listStargazers h parseDate client cfg onlyID = Some (outS, callsS)
      \<longrightarrow> (\<exists>c \<in> set callsS.
             call_failed (ListStargazers client (Owner cfg) (Repo cfg)) (GetByID client) c)
      \<longrightarrow> (\<exists>err. outS = Returns ([], [], Some err)))"
proof (intro conjI impI)
  assume "listCommits seed client cfg = Some (outC, callsC)"
    and f: "\<exists>c \<in> set callsC. call_failed (ListCommits client (Owner cfg) (Repo cfg)) (GetByID client) c"
  then obtain x where "for_pages (ListCommits client (Owner cfg) (Repo cfg)) commits_range
      (\<lambda>err. ([], Some err)) \<lparr>Page = 0, PerPage = 100\<rparr> [] [] = Some (x, callsC)"
    and o: "outC = (case x of Inl out \<Rightarrow> out | Inr users \<Rightarrow> Returns (go_range seed (map snd users), None))"
    by (auto simp: listCommits_def split: option.splits sum.splits)
  from for_pages_failed_call [OF this(1) commits_range_exit_ok f] o
  show "\<exists>err. outC = Returns ([], Some err)" by auto
next
  assume r: "listForkers h parseDate client cfg = Some (outF, callsF)"
    and f: "\<exists>c \<in> set callsF. call_failed (ListForks client (Owner cfg) (Repo cfg)) (GetByID client) c"
  let ?u = "length (StartDate cfg) > 0 \<and> length (EndDate cfg) > 0"
  from r f obtain start end' where "parseDates parseDate ?u cfg = Inr (start, end')"
    by (cases "parseDates parseDate ?u cfg") (auto simp: listForkers_def)
  with r obtain x where "for_pages (ListForks client (Owner cfg) (Repo cfg))
      (forks_range h (GetByID client) ?u start end')
      (\<lambda>err. ([], [], Some err)) \<lparr>Page = 0, PerPage = 100\<rparr> ([], []) [] = Some (x, callsF)"
    and o: "outF = (case x of Inl out \<Rightarrow> out | Inr (users, times') \<Rightarrow> Returns (users, times', None))"
    by (auto simp: listForkers_def split: option.splits sum.splits)
  from for_pages_failed_call [OF this(1) forks_range_exit_ok f] o
  show "\<exists>err. outF = Returns ([], [], Some err)" by auto
next
  assume "listWatchers h client cfg = Some (outW, callsW)"
    and f: "\<exists>c \<in> set callsW. call_failed (ListWatchers client (Owner cfg) (Repo cfg)) (GetByID client) c"
  then obtain x where "for_pages (ListWatchers client (Owner cfg) (Repo cfg))
      (watchers_range h (GetByID client))
      (\<lambda>err. ([], [], Some err)) \<lparr>Page = 0, PerPage = 100\<rparr> [] [] = Some (x, callsW)"
    and o: "outW = (case x of Inl out \<Rightarrow> out | Inr users \<Rightarrow> Returns (users, [], None))"
    by (auto simp: listWatchers_def split: option.splits sum.splits)
  from for_pages_failed_call [OF this(1) watchers_range_exit_ok f] o
  show "\<exists>err. outW = Returns ([], [], Some err)" by auto
next
  assume "listIssues h client cfg = Some (outI, callsI)"
    and f: "\<exists>c \<in> set callsI. call_failed (ListByRepo client (Owner cfg) (Repo cfg)) (GetByID client) c"
  then obtain x where "for_pages (ListByRepo client (Owner cfg) (Repo cfg))
      (issues_range h (GetByID client))
      (\<lambda>err. ([], Some err)) \<lparr>Page = 0, PerPage = 100\<rparr> ([], {}) [] = Some (x, callsI)"
    and o: "outI = (case x of Inl out \<Rightarrow> out | Inr (users, cache) \<Rightarrow> Returns (users, None))"
    by (auto simp: listIssues_def split: option.splits sum.splits)
  from for_pages_failed_call [OF this(1) issues_range_exit_ok f] o
  show "\<exists>err. outI = Returns ([], Some err)" by auto
next
  assume r: "listStargazers h parseDate client cfg onlyID = Some (outS, callsS)"
    and f: "\<exists>c \<in> set callsS.
      call_failed (ListStargazers client (Owner cfg) (Repo cfg)) (GetByID client) c"
  let ?u = "length (StartDate cfg) > 0 \<and> length (EndDate cfg) > 0"
  from r f obtain start end' where "parseDates parseDate ?u cfg = Inr (start, end')"
    by (cases "parseDates parseDate ?u cfg") (auto simp: listStargazers_def)
  with r obtain x where "for_pages (ListStargazers client (Owner cfg) (Repo cfg))
      (stargazers_range h (GetByID client) onlyID ?u start end')
      (\<lambda>err. ([], [], Some err)) \<lparr>Page = 0, PerPage = 100\<rparr> ([], []) [] = Some (x, callsS)"
    and o: "outS = (case x of Inl out \<Rightarrow> out | Inr (users, times') \<Rightarrow> Returns (users, times', None))"
    by (auto simp: listStargazers_def split: option.splits sum.splits)
  from for_pages_failed_call [OF this(1) stargazers_range_exit_ok f] o
  show "\<exists>err. outS = Returns ([], [], Some err)" by auto
qed

text \<open>A loop that has ended within \<open>n\<close> iterations has ended.\<close>

lemma for_pages_upto_Inl:
  "for_pages_upto n fetch body fail opt st calls = Inl r
   \<Longrightarrow> for_pages fetch body fail opt st calls = Some r"
proof (induction n arbitrary: opt st calls)
  case 0
  then show ?case by simp
next
  case (Suc n)
  show ?case
  proof (cases "fetch opt")
    case (Inl err)
    with Suc.prems show ?thesis
      by (subst for_pages.simps) auto
  next
    case (Inr p)
    obtain items resp where p: "p = (items, resp)" by (cases p)
    obtain x cs where b: "body items st (calls @ [CallList opt]) = (x, cs)"
      by (cases "body items st (calls @ [CallList opt])")
    show ?thesis
    proof (cases x)
      case (Inl out)
      with Suc.prems Inr p b show ?thesis
        by (subst for_pages.simps) auto
    next
      case x: (Inr st')
      show ?thesis
      proof (cases "NextPage resp = 0")
        case True
        with Suc.prems Inr p b x show ?thesis
          by (subst for_pages.simps) auto
      next
        case False
        with Suc.prems Inr p b x
        have "for_pages_upto n fetch body fail (opt\<lparr>Page := NextPage resp\<rparr>) st' cs = Inl r"
          by simp
        from Suc.IH [OF this] Inr p b x False show ?thesis
          by (subst for_pages.simps) simp
      qed
    qed
  qed
qed

text \<open>Conversely, a loop that ends has ended within some number of iterations.\<close>

lemma for_pages_Some_upto:
  fixes fetch :: "ListOptions \<Rightarrow> error + 'i list \<times> Response"
    and body :: "'i list \<Rightarrow> 's \<Rightarrow> call list \<Rightarrow> ('r outcome + 's) \<times> call list"
  assumes run: "for_pages fetch body fail opt st calls = Some r"
  shows "\<exists>n. for_pages_upto n fetch body fail opt st calls = Inl r"
proof -
  let ?P = "\<lambda>(fetch :: ListOptions \<Rightarrow> error + 'i list \<times> Response)
      (body :: 'i list \<Rightarrow> 's \<Rightarrow> call list \<Rightarrow> ('r outcome + 's) \<times> call list)
      (fail :: error \<Rightarrow> 'r) opt (st :: 's) (calls :: call list)
      (r :: ('r outcome + 's) \<times> call list).
      \<exists>n. for_pages_upto n fetch body fail opt st calls = Inl r"
  show "?P fetch body fail opt st calls r"
  proof (rule for_pages.raw_induct [where P = ?P, OF _ run])
    fix loop and fetch :: "ListOptions \<Rightarrow> error + 'i list \<times> Response"
      and body :: "'i list \<Rightarrow> 's \<Rightarrow> call list \<Rightarrow> ('r outcome + 's) \<times> call list"
      and fail :: "error \<Rightarrow> 'r" and opt st calls r
    assume ih: "\<And>fetch body fail opt st calls r.
        loop fetch body fail opt st calls = Some r \<Longrightarrow> ?P fetch body fail opt st calls r"
      and step: "(case fetch opt of
          Inl err \<Rightarrow> Some (Inl (Returns (fail (Trace err))), calls @ [CallList opt])
        | Inr (items, resp) \<Rightarrow>
            (case body items st (calls @ [CallList opt]) of
               (Inl out, calls') \<Rightarrow> Some (Inl out, calls')
             | (Inr st', calls') \<Rightarrow>
                 if NextPage resp = 0 then Some (Inr st', calls')
                 else loop fetch body fail (opt\<lparr>Page := NextPage resp\<rparr>) st' calls')) = Some r"
    show "\<exists>n. for_pages_upto n fetch body fail opt st calls = Inl r"
    proof (cases "fetch opt")
      case (Inl err)
      with step have "for_pages_upto (Suc 0) fetch body fail opt st calls = Inl r" by auto
      then show ?thesis ..
    next
      case (Inr p)
      obtain items resp where p: "p = (items, resp)" by (cases p)
      obtain x cs where b: "body items st (calls @ [CallList opt]) = (x, cs)"
        by (cases "body items st (calls @ [CallList opt])")
      show ?thesis
      proof (cases x)
        case (Inl out)
        with step Inr p b have "for_pages_upto (Suc 0) fetch body fail opt st calls = Inl r"
          by auto
        then show ?thesis ..
      next
        case x: (Inr st')
        show ?thesis
        proof (cases "NextPage resp = 0")
          case True
          with step Inr p b x have "for_pages_upto (Suc 0) fetch body fail opt st calls = Inl r"
            by auto
          then show ?thesis ..
        next
          case False
          with step Inr p b x
          have "loop fetch body fail (opt\<lparr>Page := NextPage resp\<rparr>) st' cs = Some r"
            by simp
          from ih [OF this] obtain n where
            "for_pages_upto n fetch body fail (opt\<lparr>Page := NextPage resp\<rparr>) st' cs = Inl r"
            by blast
          with Inr p b x False
          have "for_pages_upto (Suc n) fetch body fail opt st calls = Inl r"
            by simp
          then show ?thesis ..
        qed
      qed
    qed
  qed
qed

lemma for_pages_upto_ok:
  fixes fetch :: "ListOptions \<Rightarrow> error + 'i list \<times> Response"
    and body :: "'i list \<Rightarrow> 's \<Rightarrow> call list \<Rightarrow> ('r outcome + 's) \<times> call list"
  assumes body: "\<And>items st calls. \<forall>c \<in> set calls. \<not> call_failed fetch get c
        \<Longrightarrow> exit_ok fetch get fail (body items st calls)"
    and ok: "\<forall>c \<in> set calls. \<not> call_failed fetch get c"
  shows "case for_pages_upto n fetch body fail opt st calls of
           Inl r \<Rightarrow> exit_ok fetch get fail r
         | Inr (opt', st', cs) \<Rightarrow> \<forall>c \<in> set cs. \<not> call_failed fetch get c"
  using ok
proof (induction n arbitrary: opt st calls)
  case 0
  then show ?case by simp
next
  case (Suc n)
  show ?case
  proof (cases "fetch opt")
    case (Inl err)
    then show ?thesis by (auto simp: exit_ok_def)
  next
    case (Inr p)
    obtain items resp where p: "p = (items, resp)" by (cases p)
    from Inr Suc.prems have ok': "\<forall>c \<in> set (calls @ [CallList opt]). \<not> call_failed fetch get c"
      by (auto simp: call_failed_def)
    note e = body [OF ok', of items st]
    obtain x cs where b: "body items st (calls @ [CallList opt]) = (x, cs)"
      by (cases "body items st (calls @ [CallList opt])")
    show ?thesis
    proof (cases x)
      case (Inl out)
      with Inr p b e show ?thesis by simp
    next
      case x: (Inr st')
      with e b have okc: "\<forall>c \<in> set cs. \<not> call_failed fetch get c"
        by (simp add: exit_ok_def)
      show ?thesis
      proof (cases "NextPage resp = 0")
        case True
        with Inr p b x e show ?thesis by simp
      next
        case False
        with Inr p b x Suc.IH [OF okc] show ?thesis by simp
      qed
    qed
  qed
qed

lemma failed_call_upto:
  fixes fetch :: "ListOptions \<Rightarrow> error + 'i list \<times> Response"
    and body :: "'i list \<Rightarrow> 's \<Rightarrow> call list \<Rightarrow> ('r outcome + 's) \<times> call list"
  assumes body: "\<And>items st calls. \<forall>c \<in> set calls. \<not> call_failed fetch get c
        \<Longrightarrow> exit_ok fetch get fail (body items st calls)"
    and failed: "\<exists>c \<in> set (calls_upto n fetch body fail opt st []). call_failed fetch get c"
  shows "\<exists>err. for_pages fetch body fail opt st []
      = Some (Inl (Returns (fail err)), calls_upto n fetch body fail opt st [])"
proof -
  have ok: "\<forall>c \<in> set []. \<not> call_failed fetch get c" by simp
  note inv = for_pages_upto_ok [of fetch get fail body "[]" n opt st, OF body ok]
  show ?thesis
  proof (cases "for_pages_upto n fetch body fail opt st []")
    case (Inl r)
    obtain x cs where r: "r = (x, cs)" by (cases r)
    from Inl r have cs: "calls_upto n fetch body fail opt st [] = cs"
      by (simp add: calls_upto_def)
    from inv Inl r have e: "exit_ok fetch get fail (x, cs)" by simp
    from e failed cs obtain err where "x = Inl (Returns (fail err))"
      by (cases x; cases "projl x") (auto simp: exit_ok_def)
    with for_pages_upto_Inl [OF Inl] r cs show ?thesis by auto
  next
    case (Inr t)
    obtain opt' st' cs where t: "t = (opt', st', cs)" by (cases t)
    with Inr inv failed show ?thesis
      by (simp add: calls_upto_def)
  qed
qed

text \<open>
  C4.  When one of the calls that \<^verbatim>\<open>listCommits\<close>, \<^verbatim>\<open>listForkers\<close>, \<^verbatim>\<open>listWatchers\<close>,
  \<^verbatim>\<open>listIssues\<close> or \<^verbatim>\<open>listStargazers\<close> issues in the first \<open>n\<close> iterations of its loop
  fails, be it the request for a page or the lookup of a user, then the function returns:
  its result is an error with nil slices, and the calls issued up to the failure are all
  its calls.  The run is not assumed to end.
\<close>

theorem remote_failure_is_fatal:
  "((\<exists>c \<in> set (listCommits_calls n client cfg).
        call_failed (ListCommits client (Owner cfg) (Repo cfg)) (GetByID client) c)
      \<longrightarrow> (\<exists>err. listCommits seed client cfg
             = Some (Returns ([], Some err), listCommits_calls n client cfg)))
   \<and> ((\<exists>c \<in> set (listForkers_calls n h parseDate client cfg).
        call_failed (ListForks client (Owner cfg) (Repo cfg)) (GetByID client) c)
      \<longrightarrow> (\<exists>err. listForkers h parseDate client cfg
             = Some (Returns ([], [], Some err), listForkers_calls n h parseDate client cfg)))
   \<and> ((\<exists>c \<in> set (listWatchers_calls n h client cfg).
        call_failed (ListWatchers client (Owner cfg) (Repo cfg)) (GetByID client) c)
      \<longrightarrow> (\<exists>err. listWatchers h client cfg
             = Some (Returns ([], [], Some err), listWatchers_calls n h client cfg)))
   \<and> ((\<exists>c \<in> set (listIssues_calls n h client cfg).
        call_failed (ListByRepo client (Owner cfg) (Repo cfg)) (GetByID client) c)
      \<longrightarrow> (\<exists>err. listIssues h client cfg
             = Some (Returns ([], Some err), listIssues_calls n h client cfg)))
   \<and> ((\<exists>c \<in> set (listStargazers_calls n h parseDate client cfg onlyID).
        call_failed (ListStargazers client (Owner cfg) (Repo cfg)) (GetByID client) c)
      \<longrightarrow> (\<exists>err. listStargazers h parseDate client cfg onlyID
             = Some (Returns ([], [], Some err),
                     listStargazers_calls n h parseDate client cfg onlyID)))"
proof (intro conjI impI)
  assume "\<exists>c \<in> set (listCommits_calls n client cfg).
    call_failed (ListCommits client (Owner cfg) (Repo cfg)) (GetByID client) c"
  from failed_call_upto [OF commits_range_exit_ok this [unfolded listCommits_calls_def]]
  show "\<exists>err. listCommits seed client cfg
      = Some (Returns ([], Some err), listCommits_calls n client cfg)"
    by (auto simp: listCommits_def listCommits_calls_def)
next
  let ?u = "length (StartDate cfg) > 0 \<and> length (EndDate cfg) > 0"
  assume f: "\<exists>c \<in> set (listForkers_calls n h parseDate client cfg).
    call_failed (ListForks client (Owner cfg) (Repo cfg)) (GetByID client) c"
  then obtain start end' where d: "parseDates parseDate ?u cfg = Inr (start, end')"
    by (cases "parseDates parseDate ?u cfg") (auto simp: listForkers_calls_def)
  with f have "\<exists>c \<in> set (calls_upto n (ListForks client (Owner cfg) (Repo cfg))
      (forks_range h (GetByID client) ?u start end')
      (\<lambda>err. ([], [], Some err)) \<lparr>Page = 0, PerPage = 100\<rparr> ([], []) []).
    call_failed (ListForks client (Owner cfg) (Repo cfg)) (GetByID client) c"
    by (simp add: listForkers_calls_def)
  from failed_call_upto [OF forks_range_exit_ok this] d
  show "\<exists>err. listForkers h parseDate client cfg
      = Some (Returns ([], [], Some err), listForkers_calls n h parseDate client cfg)"
    by (auto simp: listForkers_def listForkers_calls_def)
next
  assume "\<exists>c \<in> set (listWatchers_calls n h client cfg).
    call_failed (ListWatchers client (Owner cfg) (Repo cfg)) (GetByID client) c"
  from failed_call_upto [OF watchers_range_exit_ok this [unfolded listWatchers_calls_def]]
  show "\<exists>err. listWatchers h client cfg
      = Some (Returns ([], [], Some err), listWatchers_calls n h client cfg)"
    by (auto simp: listWatchers_def listWatchers_calls_def)
next
  assume "\<exists>c \<in> set (listIssues_calls n h client cfg).
    call_failed (ListByRepo client (Owner cfg) (Repo cfg)) (GetByID client) c"
  from failed_call_upto [OF issues_range_exit_ok this [unfolded listIssues_calls_def]]
  show "\<exists>err. listIssues h client cfg
      = Some (Returns ([], Some err), listIssues_calls n h client cfg)"
    by (auto simp: listIssues_def listIssues_calls_def)
next
  let ?u = "length (StartDate cfg) > 0 \<and> length (EndDate cfg) > 0"
  assume f: "\<exists>c \<in> set (listStargazers_calls n h parseDate client cfg onlyID).
    call_failed (ListStargazers client (Owner cfg) (Repo cfg)) (GetByID client) c"
  then obtain start end' where d: "parseDates parseDate ?u cfg = Inr (start, end')"
    by (cases "parseDates parseDate ?u cfg") (auto simp: listStargazers_calls_def)
  with f have "\<exists>c \<in> set (calls_upto n (ListStargazers client (Owner cfg) (Repo cfg))
      (stargazers_range h (GetByID client) onlyID ?u start end')
      (\<lambda>err. ([], [], Some err)) \<lparr>Page = 0, PerPage = 100\<rparr> ([], []) []).
    call_failed (ListStargazers client (Owner cfg) (Repo cfg)) (GetByID client) c"
    by (simp add: listStargazers_calls_def)
  from failed_call_upto [OF stargazers_range_exit_ok this] d
  show "\<exists>err. listStargazers h parseDate client cfg onlyID
      = Some (Returns ([], [], Some err), listStargazers_calls n h parseDate client cfg onlyID)"
    by (auto simp: listStargazers_def listStargazers_calls_def)
qed

lemmas calls_defs =
  listCommits_calls_def listForkers_calls_def listWatchers_calls_def listIssues_calls_def
  listStargazers_calls_def calls_upto_def

theorem remote_failure_is_fatal_witness:
  "listCommits_calls 2 failing_client sample_cfg
     = [CallList \<lparr>Page = 0, PerPage = 100\<rparr>, CallList \<lparr>Page = 2, PerPage = 100\<rparr>]
   \<and> call_failed (ListCommits failing_client (Owner sample_cfg) (Repo sample_cfg))
         (GetByID failing_client) (CallList \<lparr>Page = 2, PerPage = 100\<rparr>)
   \<and> (\<exists>err. listCommits [] failing_client sample_cfg =
         Some (Returns ([], Some err),
               [CallList \<lparr>Page = 0, PerPage = 100\<rparr>, CallList \<lparr>Page = 2, PerPage = 100\<rparr>]))
   \<and> listForkers_calls 2 sample_heap sample_parseDate failing_client sample_cfg
     = [CallList \<lparr>Page = 0, PerPage = 100\<rparr>, CallGetByID 1, CallGetByID 2]
   \<and> call_failed (ListForks failing_client (Owner sample_cfg) (Repo sample_cfg))
         (GetByID failing_client) (CallGetByID 2)
   \<and> (\<exists>err. listForkers sample_heap sample_parseDate failing_client sample_cfg =
         Some (Returns ([], [], Some err),
               [CallList \<lparr>Page = 0, PerPage = 100\<rparr>, CallGetByID 1, CallGetByID 2]))
   \<and> (\<exists>err. listWatchers sample_heap failing_client sample_cfg =
         Some (Returns ([], [], Some err),
               [CallList \<lparr>Page = 0, PerPage = 100\<rparr>, CallGetByID 1, CallGetByID 2]))
   \<and> (\<exists>err. listIssues sample_heap failing_client sample_cfg =
         Some (Returns ([], Some err), [CallList \<lparr>Page = 0, PerPage = 100\<rparr>, CallGetByID 2]))
   \<and> (\<exists>err. listStargazers sample_heap sample_parseDate failing_client sample_cfg False =
         Some (Returns ([], [], Some err),
               [CallList \<lparr>Page = 0, PerPage = 100\<rparr>, CallGetByID 1, CallGetByID 2]))"
proof -
  let ?p0 = "CallList \<lparr>Page = 0, PerPage = 100\<rparr>"
  let ?p2 = "CallList \<lparr>Page = 2, PerPage = 100\<rparr>"
  have c: "listCommits_calls 2 failing_client sample_cfg = [?p0, ?p2]"
    by (simp add: calls_defs numeral_2_eq_2 sample_defs)
  have f: "listForkers_calls 2 sample_heap sample_parseDate failing_client sample_cfg
      = [?p0, CallGetByID 1, CallGetByID 2]"
    by (simp add: calls_defs parseDates_def numeral_2_eq_2 sample_defs deref_ID_def)
  have w: "listWatchers_calls 2 sample_heap failing_client sample_cfg
      = [?p0, CallGetByID 1, CallGetByID 2]"
    by (simp add: calls_defs numeral_2_eq_2 sample_defs deref_ID_def)
  have i: "listIssues_calls 2 sample_heap failing_client sample_cfg = [?p0, CallGetByID 2]"
    by (simp add: calls_defs numeral_2_eq_2 sample_defs deref_ID_def)
  have s: "listStargazers_calls 2 sample_heap sample_parseDate failing_client sample_cfg False
      = [?p0, CallGetByID 1, CallGetByID 2]"
    by (simp add: calls_defs parseDates_def numeral_2_eq_2 sample_defs deref_ID_def)
  have cf: "call_failed (ListCommits failing_client (Owner sample_cfg) (Repo sample_cfg))
      (GetByID failing_client) ?p2"
    by (simp add: call_failed_def sample_defs)
  have gf: "call_failed fetch (GetByID failing_client) (CallGetByID 2)"
    for fetch :: "ListOptions \<Rightarrow> error + 'a"
    by (simp add: call_failed_def sample_defs)
  from remote_failure_is_fatal [where n = 2 and seed = "[]" and client = failing_client
      and cfg = sample_cfg and h = sample_heap and parseDate = sample_parseDate
      and onlyID = False] c f w i s cf
  show ?thesis by (simp add: gf)
qed

section \<open>Time window and timestamps\<close>

lemma forks_range_Inr:
  "forks_range h get u s e repos (users, times') calls = (Inr (users', times''), calls')
   \<Longrightarrow> \<exists>us ts. users' = users @ us \<and> times'' = times' @ ts
         \<and> list_all2 (forker_of h get) (filter (\<lambda>r. passes u s e (CreatedAt r)) repos) us
         \<and> list_all2 (\<lambda>r t. CreatedAt r = Some t) (filter (\<lambda>r. passes u s e (CreatedAt r)) repos) ts"
proof (induction repos arbitrary: users times' calls)
  case Nil
  then show ?case by simp
next
  case (Cons repo repos)
  let ?keep = "\<lambda>r. passes u s e (CreatedAt r)"
  show ?case
  proof (cases "?keep repo")
    case False
    with Cons.prems
    have "forks_range h get u s e repos (users, times') calls = (Inr (users', times''), calls')"
      by (auto simp: passes_def in_window_def checkTime_def split: option.splits if_splits)
    from Cons.IH [OF this] False show ?thesis by simp
  next
    case True
    with Cons.prems obtain i user t where
      i: "deref_ID h (RepoOwner repo) = Some i" and g: "get i = Inr user"
      and t: "CreatedAt repo = Some t"
      and rest: "forks_range h get u s e repos (users @ [user], times' @ [t])
          (calls @ [CallGetByID i]) = (Inr (users', times''), calls')"
      by (auto simp: passes_def in_window_def checkTime_def
          split: option.splits if_splits sum.splits bool.splits)
    from Cons.IH [OF rest] obtain us ts where
      "users' = users @ user # us" "times'' = times' @ t # ts"
      "list_all2 (forker_of h get) (filter ?keep repos) us"
      "list_all2 (\<lambda>r t. CreatedAt r = Some t) (filter ?keep repos) ts"
      by auto
    moreover from i g have "forker_of h get repo user"
      by (simp add: forker_of_def)
    ultimately show ?thesis using True t
      by (intro exI [of _ "user # us"] exI [of _ "t # ts"]) simp
  qed
qed

lemma stargazers_range_Inr:
  "stargazers_range h get onlyID u s e sgs (users, times') calls = (Inr (users', times''), calls')
   \<Longrightarrow> \<exists>us ts. users' = users @ us \<and> times'' = times' @ ts
         \<and> list_all2 (stargazer_of h get onlyID) (filter (\<lambda>r. passes u s e (StarredAt r)) sgs) us
         \<and> list_all2 (\<lambda>r t. StarredAt r = Some t) (filter (\<lambda>r. passes u s e (StarredAt r)) sgs) ts"
proof (induction sgs arbitrary: users times' calls)
  case Nil
  then show ?case by simp
next
  case (Cons sg sgs)
  let ?keep = "\<lambda>r. passes u s e (StarredAt r)"
  show ?case
  proof (cases "?keep sg")
    case False
    with Cons.prems
    have "stargazers_range h get onlyID u s e sgs (users, times') calls
        = (Inr (users', times''), calls')"
      by (auto simp: passes_def in_window_def checkTime_def split: option.splits if_splits)
    from Cons.IH [OF this] False show ?thesis by simp
  next
    case True
    with Cons.prems obtain user t cs where
      g: "stargazer_of h get onlyID sg user"
      and t: "StarredAt sg = Some t"
      and rest: "stargazers_range h get onlyID u s e sgs (users @ [user], times' @ [t]) cs
          = (Inr (users', times''), calls')"
      by (auto simp: passes_def in_window_def checkTime_def stargazer_of_def
          split: option.splits if_splits sum.splits bool.splits)
    from Cons.IH [OF rest] obtain us ts where
      "users' = users @ user # us" "times'' = times' @ t # ts"
      "list_all2 (stargazer_of h get onlyID) (filter ?keep sgs) us"
      "list_all2 (\<lambda>r t. StarredAt r = Some t) (filter ?keep sgs) ts"
      by auto
    with True g t show ?thesis
      by (intro exI [of _ "user # us"] exI [of _ "t # ts"]) simp
  qed
qed


lemma run_pages_kept:
  assumes body: "\<And>items xs ys calls xs' ys' calls'.
      body items (xs, ys) calls = (Inr (xs', ys'), calls')
      \<Longrightarrow> \<exists>us ts. xs' = xs @ us \<and> ys' = ys @ ts
            \<and> list_all2 R (filter K items) us \<and> list_all2 T (filter K items) ts"
    and run: "run_pages body pgs (xs, ys) calls = (Inr (xs', ys'), calls')"
  shows "\<exists>us ts. xs' = xs @ us \<and> ys' = ys @ ts
      \<and> list_all2 R (filter K (concat (map snd pgs))) us
      \<and> list_all2 T (filter K (concat (map snd pgs))) ts"
  using run
proof (induction pgs arbitrary: xs ys calls)
  case Nil
  then show ?case by simp
next
  case (Cons pg pgs)
  obtain opt items where pg: "pg = (opt, items)" by (cases pg)
  obtain y cs where b: "body items (xs, ys) (calls @ [CallList opt]) = (y, cs)"
    by (cases "body items (xs, ys) (calls @ [CallList opt])")
  with Cons.prems pg obtain xs1 ys1 where y: "y = Inr (xs1, ys1)"
    by (cases y) auto
  from body [OF b [unfolded y]] obtain us1 ts1 where 1:
    "xs1 = xs @ us1" "ys1 = ys @ ts1"
    "list_all2 R (filter K items) us1" "list_all2 T (filter K items) ts1"
    by blast
  from Cons.prems pg b y have "run_pages body pgs (xs1, ys1) cs = (Inr (xs', ys'), calls')"
    by simp
  from Cons.IH [OF this] obtain us2 ts2 where 2:
    "xs' = xs1 @ us2" "ys' = ys1 @ ts2"
    "list_all2 R (filter K (concat (map snd pgs))) us2"
    "list_all2 T (filter K (concat (map snd pgs))) ts2"
    by blast
  from 1 2 pg show ?case
    by (intro exI [of _ "us1 @ us2"] exI [of _ "ts1 @ ts2"]) (simp add: list_all2_appendI)
qed

lemma for_pages_Inr_pages:
  fixes fetch :: "ListOptions \<Rightarrow> error + 'i list \<times> Response"
    and body :: "'i list \<Rightarrow> 's \<Rightarrow> call list \<Rightarrow> ('r outcome + 's) \<times> call list"
  assumes run: "for_pages fetch body fail opt st calls = Some (Inr st', calls')"
  shows "\<exists>n pgs. pages_from n fetch opt = Some pgs"
proof -
  let ?P = "\<lambda>(fetch :: ListOptions \<Rightarrow> error + 'i list \<times> Response)
      (body :: 'i list \<Rightarrow> 's \<Rightarrow> call list \<Rightarrow> ('r outcome + 's) \<times> call list)
      (fail :: error \<Rightarrow> 'r) opt (st :: 's) (calls :: call list)
      (r :: ('r outcome + 's) \<times> call list).
      (\<exists>st' calls'. r = (Inr st', calls')) \<longrightarrow> (\<exists>n pgs. pages_from n fetch opt = Some pgs)"
  have "?P fetch body fail opt st calls (Inr st', calls')"
  proof (rule for_pages.raw_induct [where P = ?P, OF _ run], intro impI)
    fix loop and fetch :: "ListOptions \<Rightarrow> error + 'i list \<times> Response"
      and body :: "'i list \<Rightarrow> 's \<Rightarrow> call list \<Rightarrow> ('r outcome + 's) \<times> call list"
      and fail :: "error \<Rightarrow> 'r" and opt st calls r
    assume ih: "\<And>fetch body fail opt st calls r.
        loop fetch body fail opt st calls = Some r \<Longrightarrow> ?P fetch body fail opt st calls r"
      and step: "(case fetch opt of
          Inl err \<Rightarrow> Some (Inl (Returns (fail (Trace err))), calls @ [CallList opt])
        | Inr (items, resp) \<Rightarrow>
            (case body items st (calls @ [CallList opt]) of
               (Inl out, calls') \<Rightarrow> Some (Inl out, calls')
             | (Inr st', calls') \<Rightarrow>
                 if NextPage resp = 0 then Some (Inr st', calls')
                 else loop fetch body fail (opt\<lparr>Page := NextPage resp\<rparr>) st' calls')) = Some r"
      and r: "\<exists>st' calls'. r = (Inr st', calls')"
    from step r obtain items resp where f: "fetch opt = Inr (items, resp)"
      by (cases "fetch opt") auto
    obtain x cs where b: "body items st (calls @ [CallList opt]) = (x, cs)"
      by (cases "body items st (calls @ [CallList opt])")
    with step r f obtain st1 where x: "x = Inr st1"
      by (cases x) auto
    show "\<exists>n pgs. pages_from n fetch opt = Some pgs"
    proof (cases "NextPage resp = 0")
      case True
      with f have "pages_from (Suc 0) fetch opt = Some [(opt, items)]" by simp
      then show ?thesis by blast
    next
      case False
      with step f b x
      have "loop fetch body fail (opt\<lparr>Page := NextPage resp\<rparr>) st1 cs = Some r"
        by simp
      from ih [OF this] r obtain n pgs where
        "pages_from n fetch (opt\<lparr>Page := NextPage resp\<rparr>) = Some pgs"
        by blast
      with f False have "pages_from (Suc n) fetch opt = Some ((opt, items) # pgs)"
        by simp
      then show ?thesis by blast
    qed
  qed
  then show ?thesis by blast
qed


lemma for_pages_Returns:
  fixes fetch :: "ListOptions \<Rightarrow> error + 'i list \<times> Response"
    and body :: "'i list \<Rightarrow> 's \<Rightarrow> call list \<Rightarrow> ('r outcome + 's) \<times> call list"
  assumes run: "for_pages fetch body fail opt st [] = Some (Inl (Returns ret), calls)"
    and body: "\<And>items st calls. \<forall>c \<in> set calls. \<not> call_failed fetch get c
        \<Longrightarrow> exit_ok fetch get fail (body items st calls)"
  shows "\<exists>err. ret = fail err"
proof -
  have "exit_ok fetch get fail (Inl (Returns ret) :: 'r outcome + 's, calls)"
    by (rule for_pages_exit_ok [OF run _ body]) simp_all
  then show ?thesis by (simp add: exit_ok_simps)
qed

lemma listForkers_result:
  assumes r: "listForkers h parseDate client cfg = Some (Returns (users, times', None), calls)"
  shows "\<exists>n pgs start end'.
      pages_from n (ListForks client (Owner cfg) (Repo cfg)) \<lparr>Page = 0, PerPage = 100\<rparr> = Some pgs
      \<and> parseDates parseDate (StartDate cfg \<noteq> [] \<and> EndDate cfg \<noteq> []) cfg = Inr (start, end')
      \<and> forks_kept h (GetByID client)
          (filter (\<lambda>r. passes (StartDate cfg \<noteq> [] \<and> EndDate cfg \<noteq> []) start end' (CreatedAt r))
             (concat (map snd pgs)))
          users times'"
proof -
  let ?u = "StartDate cfg \<noteq> [] \<and> EndDate cfg \<noteq> []"
  let ?fetch = "ListForks client (Owner cfg) (Repo cfg)"
  let ?fail = "\<lambda>err. ([] :: User list, [] :: time list, Some (err :: error))"
  let ?opt = "\<lparr>Page = 0, PerPage = 100\<rparr>"
  from r obtain start end' where d: "parseDates parseDate ?u cfg = Inr (start, end')"
    by (cases "parseDates parseDate ?u cfg") (auto simp: listForkers_def)
  let ?body = "forks_range h (GetByID client) ?u start end'"
  from r d obtain x where f: "for_pages ?fetch ?body ?fail ?opt ([], []) [] = Some (x, calls)"
    and o: "Returns (users, times', None)
      = (case x of Inl out \<Rightarrow> out | Inr (users, times') \<Rightarrow> Returns (users, times', None))"
    by (auto simp: listForkers_def split: option.splits sum.splits)
  have "x \<noteq> Inl (Returns (users, times', None))"
    using for_pages_Returns [of ?fetch ?body ?fail ?opt "([], [])" _ calls "GetByID client",
        OF _ forks_range_exit_ok] f
    by fastforce
  with o have x: "x = Inr (users, times')"
    by (cases x) auto
  from for_pages_Inr_pages [OF f [unfolded x]] obtain n pgs where
    p: "pages_from n ?fetch ?opt = Some pgs" by blast
  from for_pages_walk [OF p, of ?body ?fail "([], [])" "[]"] f x
  have rp: "run_pages ?body pgs ([], []) [] = (Inr (users, times'), calls)"
    by simp
  have "\<exists>us ts. users = [] @ us \<and> times' = [] @ ts
      \<and> list_all2 (forker_of h (GetByID client))
          (filter (\<lambda>r. passes ?u start end' (CreatedAt r)) (concat (map snd pgs))) us
      \<and> list_all2 (\<lambda>r t. CreatedAt r = Some t)
          (filter (\<lambda>r. passes ?u start end' (CreatedAt r)) (concat (map snd pgs))) ts"
    by (rule run_pages_kept [where body = ?body, OF _ rp]) (rule forks_range_Inr)
  with d p show ?thesis
    by (auto simp: forks_kept_def)
qed

lemma listStargazers_result:
  assumes r: "listStargazers h parseDate client cfg onlyID
      = Some (Returns (users, times', None), calls)"
  shows "\<exists>n pgs start end'.
      pages_from n (ListStargazers client (Owner cfg) (Repo cfg)) \<lparr>Page = 0, PerPage = 100\<rparr>
        = Some pgs
      \<and> parseDates parseDate (StartDate cfg \<noteq> [] \<and> EndDate cfg \<noteq> []) cfg = Inr (start, end')
      \<and> stars_kept h (GetByID client) onlyID
          (filter (\<lambda>r. passes (StartDate cfg \<noteq> [] \<and> EndDate cfg \<noteq> []) start end' (StarredAt r))
             (concat (map snd pgs)))
          users times'"
proof -
  let ?u = "StartDate cfg \<noteq> [] \<and> EndDate cfg \<noteq> []"
  let ?fetch = "ListStargazers client (Owner cfg) (Repo cfg)"
  let ?fail = "\<lambda>err. ([] :: User option list, [] :: time list, Some (err :: error))"
  let ?opt = "\<lparr>Page = 0, PerPage = 100\<rparr>"
  from r obtain start end' where d: "parseDates parseDate ?u cfg = Inr (start, end')"
    by (cases "parseDates parseDate ?u cfg") (auto simp: listStargazers_def)
  let ?body = "stargazers_range h (GetByID client) onlyID ?u start end'"
  from r d obtain x where f: "for_pages ?fetch ?body ?fail ?opt ([], []) [] = Some (x, calls)"
    and o: "Returns (users, times', None)
      = (case x of Inl out \<Rightarrow> out | Inr (users, times') \<Rightarrow> Returns (users, times', None))"
    by (auto simp: listStargazers_def split: option.splits sum.splits)
  have "x \<noteq> Inl (Returns (users, times', None))"
    using for_pages_Returns [of ?fetch ?body ?fail ?opt "([], [])" _ calls "GetByID client",
        OF _ stargazers_range_exit_ok] f
    by fastforce
  with o have x: "x = Inr (users, times')"
    by (cases x) auto
  from for_pages_Inr_pages [OF f [unfolded x]] obtain n pgs where
    p: "pages_from n ?fetch ?opt = Some pgs" by blast
  from for_pages_walk [OF p, of ?body ?fail "([], [])" "[]"] f x
  have rp: "run_pages ?body pgs ([], []) [] = (Inr (users, times'), calls)"
    by simp
  have "\<exists>us ts. users = [] @ us \<and> times' = [] @ ts
      \<and> list_all2 (stargazer_of h (GetByID client) onlyID)
          (filter (\<lambda>r. passes ?u start end' (StarredAt r)) (concat (map snd pgs))) us
      \<and> list_all2 (\<lambda>r t. StarredAt r = Some t)
          (filter (\<lambda>r. passes ?u start end' (StarredAt r)) (concat (map snd pgs))) ts"
    by (rule run_pages_kept [where body = ?body, OF _ rp]) (rule stargazers_range_Inr)
  with d p show ?thesis
    by (auto simp: stars_kept_def)
qed

lemma passes_off: "filter (\<lambda>r. passes False s e (f r)) xs = xs"
  by (simp add: passes_def)

lemma passes_on: "passes True s e = in_window s e"
  by (simp add: passes_def fun_eq_iff)

lemma parseDates_on:
  "parseDates parseDate True cfg = Inr (start, end')
   \<Longrightarrow> parseDate (StartDate cfg) = Inr start \<and> parseDate (EndDate cfg) = Inr end'"
  by (auto simp: parseDates_def split: sum.splits)

text \<open>
  C3.  In a run of \<^verbatim>\<open>listForkers\<close> or \<^verbatim>\<open>listStargazers\<close> that returns without error,
  when \<^verbatim>\<open>StartDate\<close> and \<^verbatim>\<open>EndDate\<close> are both non-empty the records behind the result are
  exactly the served records whose timestamp \<open>t\<close> satisfies \<open>start \<le> t\<close> and \<open>t \<le> end\<close>
  for the two parsed dates; when one of them is empty they are all the served records.
  (\<^verbatim>\<open>checkTime\<close> is modelled from the spec.)
\<close>

theorem time_window_filter:
  "(listForkers h parseDate client cfg = Some (Returns (users, times', None), calls)
      \<longrightarrow> (\<exists>n pgs.
            pages_from n (ListForks client (Owner cfg) (Repo cfg)) \<lparr>Page = 0, PerPage = 100\<rparr>
              = Some pgs
            \<and> (if StartDate cfg \<noteq> [] \<and> EndDate cfg \<noteq> [] then
                 \<exists>start end'. parseDate (StartDate cfg) = Inr start
                   \<and> parseDate (EndDate cfg) = Inr end'
                   \<and> forks_kept h (GetByID client)
                       (filter (\<lambda>repo. in_window start end' (CreatedAt repo))
                          (concat (map snd pgs)))
                       users times'
               else forks_kept h (GetByID client) (concat (map snd pgs)) users times')))
   \<and> (listStargazers h parseDate client cfg onlyID = Some (Returns (stars, starTimes, None), calls')
      \<longrightarrow> (\<exists>n pgs.
            pages_from n (ListStargazers client (Owner cfg) (Repo cfg))
              \<lparr>Page = 0, PerPage = 100\<rparr> = Some pgs
            \<and> (if StartDate cfg \<noteq> [] \<and> EndDate cfg \<noteq> [] then
                 \<exists>start end'. parseDate (StartDate cfg) = Inr start
                   \<and> parseDate (EndDate cfg) = Inr end'
                   \<and> stars_kept h (GetByID client) onlyID
                       (filter (\<lambda>stargazer. in_window start end' (StarredAt stargazer))
                          (concat (map snd pgs)))
                       stars starTimes
               else stars_kept h (GetByID client) onlyID (concat (map snd pgs))
                      stars starTimes)))"
proof (intro conjI impI)
  assume "listForkers h parseDate client cfg = Some (Returns (users, times', None), calls)"
  from listForkers_result [OF this] obtain n pgs start end' where
    p: "pages_from n (ListForks client (Owner cfg) (Repo cfg)) \<lparr>Page = 0, PerPage = 100\<rparr>
      = Some pgs"
    and d: "parseDates parseDate (StartDate cfg \<noteq> [] \<and> EndDate cfg \<noteq> []) cfg = Inr (start, end')"
    and k: "forks_kept h (GetByID client)
      (filter (\<lambda>r. passes (StartDate cfg \<noteq> [] \<and> EndDate cfg \<noteq> []) start end' (CreatedAt r))
         (concat (map snd pgs))) users times'"
    by blast
  show "\<exists>n pgs.
      pages_from n (ListForks client (Owner cfg) (Repo cfg)) \<lparr>Page = 0, PerPage = 100\<rparr> = Some pgs
      \<and> (if StartDate cfg \<noteq> [] \<and> EndDate cfg \<noteq> [] then
           \<exists>start end'. parseDate (StartDate cfg) = Inr start
             \<and> parseDate (EndDate cfg) = Inr end'
             \<and> forks_kept h (GetByID client)
                 (filter (\<lambda>repo. in_window start end' (CreatedAt repo)) (concat (map snd pgs)))
                 users times'
         else forks_kept h (GetByID client) (concat (map snd pgs)) users times')"
  proof (cases "StartDate cfg \<noteq> [] \<and> EndDate cfg \<noteq> []")
    case True
    with d k parseDates_on [of parseDate cfg start end'] p show ?thesis
      by (auto simp: passes_on)
  next
    case False
    with k p show ?thesis
      by (intro exI [of _ n] exI [of _ pgs]) (auto simp: passes_off)
  qed
next
  assume "listStargazers h parseDate client cfg onlyID
    = Some (Returns (stars, starTimes, None), calls')"
  from listStargazers_result [OF this] obtain n pgs start end' where
    p: "pages_from n (ListStargazers client (Owner cfg) (Repo cfg)) \<lparr>Page = 0, PerPage = 100\<rparr>
      = Some pgs"
    and d: "parseDates parseDate (StartDate cfg \<noteq> [] \<and> EndDate cfg \<noteq> []) cfg = Inr (start, end')"
    and k: "stars_kept h (GetByID client) onlyID
      (filter (\<lambda>r. passes (StartDate cfg \<noteq> [] \<and> EndDate cfg \<noteq> []) start end' (StarredAt r))
         (concat (map snd pgs))) stars starTimes"
    by blast
  show "\<exists>n pgs.
      pages_from n (ListStargazers client (Owner cfg) (Repo cfg)) \<lparr>Page = 0, PerPage = 100\<rparr>
        = Some pgs
      \<and> (if StartDate cfg \<noteq> [] \<and> EndDate cfg \<noteq> [] then
           \<exists>start end'. parseDate (StartDate cfg) = Inr start
             \<and> parseDate (EndDate cfg) = Inr end'
             \<and> stars_kept h (GetByID client) onlyID
                 (filter (\<lambda>stargazer. in_window start end' (StarredAt stargazer))
                    (concat (map snd pgs)))
                 stars starTimes
         else stars_kept h (GetByID client) onlyID (concat (map snd pgs)) stars starTimes)"
  proof (cases "StartDate cfg \<noteq> [] \<and> EndDate cfg \<noteq> []")
    case True
    with d k parseDates_on [of parseDate cfg start end'] p show ?thesis
      by (auto simp: passes_on)
  next
    case False
    with k p show ?thesis
      by (intro exI [of _ n] exI [of _ pgs]) (auto simp: passes_off)
  qed
qed


theorem time_window_filter_witness:
  "listForkers sample_heap sample_parseDate sample_client window_cfg =
     Some (Returns ([alice, bob], [10, 20], None),
           [CallList \<lparr>Page = 0, PerPage = 100\<rparr>, CallGetByID 1, CallGetByID 2,
            CallList \<lparr>Page = 2, PerPage = 100\<rparr>])
   \<and> (\<exists>n pgs. pages_from n (ListForks sample_client ''pingcap'' ''tidb'')
           \<lparr>Page = 0, PerPage = 100\<rparr> = Some pgs
         \<and> forks_kept sample_heap (GetByID sample_client)
             (filter (\<lambda>repo. in_window 10 20 (CreatedAt repo)) (concat (map snd pgs)))
             [alice, bob] [10, 20])
   \<and> listStargazers sample_heap sample_parseDate sample_client sample_cfg True =
     Some (Returns ([Some alice, Some bob, Some alice_again], [10, 20, 30], None),
           [CallList \<lparr>Page = 0, PerPage = 100\<rparr>, CallList \<lparr>Page = 2, PerPage = 100\<rparr>])
   \<and> (\<exists>n pgs. pages_from n (ListStargazers sample_client ''pingcap'' ''tidb'')
           \<lparr>Page = 0, PerPage = 100\<rparr> = Some pgs
         \<and> stars_kept sample_heap (GetByID sample_client) True (concat (map snd pgs))
             [Some alice, Some bob, Some alice_again] [10, 20, 30])"
proof -
  have f: "listForkers sample_heap sample_parseDate sample_client window_cfg =
     Some (Returns ([alice, bob], [10, 20], None),
           [CallList \<lparr>Page = 0, PerPage = 100\<rparr>, CallGetByID 1, CallGetByID 2,
            CallList \<lparr>Page = 2, PerPage = 100\<rparr>])"
    by (simp add: listForkers_def parseDates_def for_pages.simps sample_defs deref_ID_def
        checkTime_def)
  have s: "listStargazers sample_heap sample_parseDate sample_client sample_cfg True =
     Some (Returns ([Some alice, Some bob, Some alice_again], [10, 20, 30], None),
           [CallList \<lparr>Page = 0, PerPage = 100\<rparr>, CallList \<lparr>Page = 2, PerPage = 100\<rparr>])"
    by (simp add: listStargazers_def parseDates_def for_pages.simps sample_defs deref_ID_def
        checkTime_def)
  note t = time_window_filter [where h = sample_heap and parseDate = sample_parseDate
      and client = sample_client and cfg = window_cfg and users = "[alice, bob]"
      and times' = "[10, 20]" and onlyID = True]
  note t' = time_window_filter [where h = sample_heap and parseDate = sample_parseDate
      and client = sample_client and cfg = sample_cfg and onlyID = True
      and stars = "[Some alice, Some bob, Some alice_again]" and starTimes = "[10, 20, 30]"]
  from t [THEN conjunct1, rule_format, OF f] t' [THEN conjunct2, rule_format, OF s] f s
  show ?thesis
    by (simp add: window_cfg_def sample_cfg_def sample_parseDate_def)
qed

text \<open>
  C7.  In a run of \<^verbatim>\<open>listForkers\<close> or \<^verbatim>\<open>listStargazers\<close> that returns without error,
  the users and the timestamps returned are as many as the served records that pass the
  filter, and at each index the user and the timestamp are those of the record kept at that
  index; a record that the filter skips is in neither.
\<close>

theorem actors_timestamps_aligned:
  "(listForkers h parseDate client cfg = Some (Returns (users, times', None), calls)
      \<longrightarrow> (\<exists>n pgs start end' kept.
            pages_from n (ListForks client (Owner cfg) (Repo cfg)) \<lparr>Page = 0, PerPage = 100\<rparr>
              = Some pgs
            \<and> parseDates parseDate (StartDate cfg \<noteq> [] \<and> EndDate cfg \<noteq> []) cfg
              = Inr (start, end')
            \<and> kept = filter (\<lambda>repo. passes (StartDate cfg \<noteq> [] \<and> EndDate cfg \<noteq> []) start end'
                               (CreatedAt repo)) (concat (map snd pgs))
            \<and> length users = length kept \<and> length times' = length kept
            \<and> (\<forall>i < length kept. forker_of h (GetByID client) (kept ! i) (users ! i)
                  \<and> CreatedAt (kept ! i) = Some (times' ! i))))
   \<and> (listStargazers h parseDate client cfg onlyID = Some (Returns (stars, starTimes, None), calls')
      \<longrightarrow> (\<exists>n pgs start end' kept.
            pages_from n (ListStargazers client (Owner cfg) (Repo cfg))
              \<lparr>Page = 0, PerPage = 100\<rparr> = Some pgs
            \<and> parseDates parseDate (StartDate cfg \<noteq> [] \<and> EndDate cfg \<noteq> []) cfg
              = Inr (start, end')
            \<and> kept = filter (\<lambda>stargazer. passes (StartDate cfg \<noteq> [] \<and> EndDate cfg \<noteq> [])
                               start end' (StarredAt stargazer)) (concat (map snd pgs))
            \<and> length stars = length kept \<and> length starTimes = length kept
            \<and> (\<forall>i < length kept.
                  stargazer_of h (GetByID client) onlyID (kept ! i) (stars ! i)
                  \<and> StarredAt (kept ! i) = Some (starTimes ! i))))"
proof (intro conjI impI)
  let ?u = "StartDate cfg \<noteq> [] \<and> EndDate cfg \<noteq> []"
  assume "listForkers h parseDate client cfg = Some (Returns (users, times', None), calls)"
  from listForkers_result [OF this] obtain n pgs start end' where
    p: "pages_from n (ListForks client (Owner cfg) (Repo cfg)) \<lparr>Page = 0, PerPage = 100\<rparr>
      = Some pgs"
    and d: "parseDates parseDate ?u cfg = Inr (start, end')"
    and k: "forks_kept h (GetByID client)
      (filter (\<lambda>r. passes ?u start end' (CreatedAt r)) (concat (map snd pgs))) users times'"
    by blast
  let ?kept = "filter (\<lambda>r. passes ?u start end' (CreatedAt r)) (concat (map snd pgs))"
  from k have "length users = length ?kept \<and> length times' = length ?kept
      \<and> (\<forall>i < length ?kept. forker_of h (GetByID client) (?kept ! i) (users ! i)
            \<and> CreatedAt (?kept ! i) = Some (times' ! i))"
    unfolding forks_kept_def list_all2_conv_all_nth by simp
  with p d show "\<exists>n pgs start end' kept.
      pages_from n (ListForks client (Owner cfg) (Repo cfg)) \<lparr>Page = 0, PerPage = 100\<rparr> = Some pgs
      \<and> parseDates parseDate ?u cfg = Inr (start, end')
      \<and> kept = filter (\<lambda>repo. passes ?u start end' (CreatedAt repo)) (concat (map snd pgs))
      \<and> length users = length kept \<and> length times' = length kept
      \<and> (\<forall>i < length kept. forker_of h (GetByID client) (kept ! i) (users ! i)
            \<and> CreatedAt (kept ! i) = Some (times' ! i))"
    by blast
next
  let ?u = "StartDate cfg \<noteq> [] \<and> EndDate cfg \<noteq> []"
  assume "listStargazers h parseDate client cfg onlyID
    = Some (Returns (stars, starTimes, None), calls')"
  from listStargazers_result [OF this] obtain n pgs start end' where
    p: "pages_from n (ListStargazers client (Owner cfg) (Repo cfg)) \<lparr>Page = 0, PerPage = 100\<rparr>
      = Some pgs"
    and d: "parseDates parseDate ?u cfg = Inr (start, end')"
    and k: "stars_kept h (GetByID client) onlyID
      (filter (\<lambda>r. passes ?u start end' (StarredAt r)) (concat (map snd pgs))) stars starTimes"
    by blast
  let ?kept = "filter (\<lambda>r. passes ?u start end' (StarredAt r)) (concat (map snd pgs))"
  from k have "length stars = length ?kept \<and> length starTimes = length ?kept
      \<and> (\<forall>i < length ?kept. stargazer_of h (GetByID client) onlyID (?kept ! i) (stars ! i)
            \<and> StarredAt (?kept ! i) = Some (starTimes ! i))"
    unfolding stars_kept_def list_all2_conv_all_nth by simp
  with p d show "\<exists>n pgs start end' kept.
      pages_from n (ListStargazers client (Owner cfg) (Repo cfg)) \<lparr>Page = 0, PerPage = 100\<rparr>
        = Some pgs
      \<and> parseDates parseDate ?u cfg = Inr (start, end')
      \<and> kept = filter (\<lambda>stargazer. passes ?u start end' (StarredAt stargazer))
          (concat (map snd pgs))
      \<and> length stars = length kept \<and> length starTimes = length kept
      \<and> (\<forall>i < length kept. stargazer_of h (GetByID client) onlyID (kept ! i) (stars ! i)
            \<and> StarredAt (kept ! i) = Some (starTimes ! i))"
    by blast
qed


theorem actors_timestamps_aligned_witness:
  "listForkers sample_heap sample_parseDate sample_client sample_cfg =
     Some (Returns ([alice, bob, alice], [10, 20, 30], None),
           [CallList \<lparr>Page = 0, PerPage = 100\<rparr>, CallGetByID 1, CallGetByID 2,
            CallList \<lparr>Page = 2, PerPage = 100\<rparr>, CallGetByID 1])
   \<and> (\<exists>n pgs. pages_from n (ListForks sample_client ''pingcap'' ''tidb'')
           \<lparr>Page = 0, PerPage = 100\<rparr> = Some pgs
         \<and> length [alice, bob, alice] = length (concat (map snd pgs))
         \<and> (\<forall>i < length (concat (map snd pgs)).
               forker_of sample_heap (GetByID sample_client) (concat (map snd pgs) ! i)
                 ([alice, bob, alice] ! i)
               \<and> CreatedAt (concat (map snd pgs) ! i) = Some ([10, 20, 30] ! i)))
   \<and> listStargazers sample_heap sample_parseDate sample_client window_cfg False =
     Some (Returns ([Some alice, Some bob], [10, 20], None),
           [CallList \<lparr>Page = 0, PerPage = 100\<rparr>, CallGetByID 1, CallGetByID 2,
            CallList \<lparr>Page = 2, PerPage = 100\<rparr>])
   \<and> (\<exists>n pgs kept. pages_from n (ListStargazers sample_client ''pingcap'' ''tidb'')
           \<lparr>Page = 0, PerPage = 100\<rparr> = Some pgs
         \<and> kept = filter (\<lambda>stargazer. passes True 10 20 (StarredAt stargazer))
             (concat (map snd pgs))
         \<and> length [Some alice, Some bob] = length kept
         \<and> (\<forall>i < length kept.
               stargazer_of sample_heap (GetByID sample_client) False (kept ! i)
                 ([Some alice, Some bob] ! i)
               \<and> StarredAt (kept ! i) = Some ([10, 20] ! i)))"
proof -
  have f: "listForkers sample_heap sample_parseDate sample_client sample_cfg =
     Some (Returns ([alice, bob, alice], [10, 20, 30], None),
           [CallList \<lparr>Page = 0, PerPage = 100\<rparr>, CallGetByID 1, CallGetByID 2,
            CallList \<lparr>Page = 2, PerPage = 100\<rparr>, CallGetByID 1])"
    by (simp add: listForkers_def parseDates_def for_pages.simps sample_defs deref_ID_def
        checkTime_def)
  have s: "listStargazers sample_heap sample_parseDate sample_client window_cfg False =
     Some (Returns ([Some alice, Some bob], [10, 20], None),
           [CallList \<lparr>Page = 0, PerPage = 100\<rparr>, CallGetByID 1, CallGetByID 2,
            CallList \<lparr>Page = 2, PerPage = 100\<rparr>])"
    by (simp add: listStargazers_def parseDates_def for_pages.simps sample_defs deref_ID_def
        checkTime_def)
  note t = actors_timestamps_aligned [where h = sample_heap and parseDate = sample_parseDate
      and client = sample_client and cfg = sample_cfg and users = "[alice, bob, alice]"
      and times' = "[10, 20, 30]" and onlyID = False]
  note t' = actors_timestamps_aligned [where h = sample_heap and parseDate = sample_parseDate
      and client = sample_client and cfg = window_cfg and onlyID = False
      and stars = "[Some alice, Some bob]" and starTimes = "[10, 20]"]
  have c1: "\<exists>n pgs. pages_from n (ListForks sample_client ''pingcap'' ''tidb'')
           \<lparr>Page = 0, PerPage = 100\<rparr> = Some pgs
         \<and> length [alice, bob, alice] = length (concat (map snd pgs))
         \<and> (\<forall>i < length (concat (map snd pgs)).
               forker_of sample_heap (GetByID sample_client) (concat (map snd pgs) ! i)
                 ([alice, bob, alice] ! i)
               \<and> CreatedAt (concat (map snd pgs) ! i) = Some ([10, 20, 30] ! i))"
    using t [THEN conjunct1, rule_format, OF f]
    by (simp add: sample_cfg_def parseDates_def passes_def)
  have c2: "\<exists>n pgs kept. pages_from n (ListStargazers sample_client ''pingcap'' ''tidb'')
           \<lparr>Page = 0, PerPage = 100\<rparr> = Some pgs
         \<and> kept = filter (\<lambda>stargazer. passes True 10 20 (StarredAt stargazer))
             (concat (map snd pgs))
         \<and> length [Some alice, Some bob] = length kept
         \<and> (\<forall>i < length kept.
               stargazer_of sample_heap (GetByID sample_client) False (kept ! i)
                 ([Some alice, Some bob] ! i)
               \<and> StarredAt (kept ! i) = Some ([10, 20] ! i))"
    using t' [THEN conjunct2, rule_format, OF s]
    by (simp add: window_cfg_def sample_parseDate_def parseDates_def)
  from f c1 s c2 show ?thesis
    by (intro conjI)
qed

end
